theory Spec2Isabelle
  imports Main "HOL-Library.AList"
begin

section \<open>Session store: the WebRTC service\<close>

text \<open>
  The service of \<^verbatim>\<open>webrtcService.js\<close> keeps every session in a JavaScript
  \<^verbatim>\<open>Map\<close> (\<^verbatim>\<open>activeSessions\<close>) and mirrors it into Redis. A \<^verbatim>\<open>Map\<close> iterates
  in insertion order and \<^verbatim>\<open>set\<close> on a present key keeps its place, which is what
  \<open>AList.update\<close> does on an association list, so \<^verbatim>\<open>activeSessions\<close> is an association
  list. Timestamps (\<^verbatim>\<open>new Date()\<close>) are milliseconds since the epoch, passed in as
  \<open>now\<close>; an ISO string written by \<^verbatim>\<open>toISOString\<close> and read back by \<^verbatim>\<open>new Date\<close>
  is the same number of milliseconds. The identifier returned by \<^verbatim>\<open>uuidv4()\<close> is
  passed in as well.
\<close>

datatype session_status = Created | Active | Ended

datatype participant_status = Connected

record participant =
  p_userId :: string
  socketId :: string
  joinedAt :: int
  p_status :: participant_status

record session =
  s_id :: string
  s_userId :: string
  s_type :: string
  s_status :: session_status
  createdAt :: int
  participants :: "participant list"
  iceConfiguration :: "string list"

text \<open>
  A thrown JavaScript \<^verbatim>\<open>Error\<close> carries its message. A rejected Redis call
  (\<^verbatim>\<open>getClient()\<close> throwing, or the command rejecting) is \<open>RedisFailure\<close>.
\<close>

datatype error = Error string | RedisFailure

text \<open>
  Redis holds, under each key, the value written by \<^verbatim>\<open>setEx\<close> with the requested
  time to live in seconds. \<^verbatim>\<open>JSON.parse (JSON.stringify session)\<close> rebuilds a session
  of equal fields, so the stored value is the session. \<open>up\<close> tells whether a Redis
  call made now succeeds; the environment may change it between operations.
\<close>

record redis_client =
  kv :: "string \<rightharpoonup> (nat \<times> session)"
  up :: bool

record WebRTCService =
  stunServers :: "string list"
  activeSessions :: "(string \<times> session) list"
  redis :: redis_client

definition session_key :: "string \<Rightarrow> string" where
  "session_key sessionId = ''webrtc:session:'' @ sessionId"

definition setEx :: "string \<Rightarrow> nat \<Rightarrow> session \<Rightarrow> redis_client \<Rightarrow> error + redis_client" where
  "setEx key ttl val r =
     (if up r then Inr (r\<lparr>kv := (kv r)(key \<mapsto> (ttl, val))\<rparr>) else Inl RedisFailure)"

definition redis_get :: "string \<Rightarrow> redis_client \<Rightarrow> error + session option" where
  "redis_get key r = (if up r then Inr (map_option snd (kv r key)) else Inl RedisFailure)"

definition redis_del :: "string \<Rightarrow> redis_client \<Rightarrow> error + redis_client" where
  "redis_del key r = (if up r then Inr (r\<lparr>kv := (kv r)(key := None)\<rparr>) else Inl RedisFailure)"

definition getIceServers :: "WebRTCService \<Rightarrow> string list" where
  "getIceServers st = stunServers st"

text \<open>\<^verbatim>\<open>storeSession\<close>: the catch block logs and rethrows.\<close>

definition storeSession :: "string \<Rightarrow> session \<Rightarrow> WebRTCService \<Rightarrow> error + WebRTCService" where
  "storeSession sessionId sess st =
     (case setEx (session_key sessionId) 3600 sess (redis st) of
        Inl e \<Rightarrow> Inl e
      | Inr r \<Rightarrow> Inr (st\<lparr>redis := r\<rparr>))"

text \<open>\<^verbatim>\<open>getSession\<close>: the catch block logs and returns \<^verbatim>\<open>null\<close>.\<close>

definition getSession :: "string \<Rightarrow> WebRTCService \<Rightarrow> session option" where
  "getSession sessionId st =
     (case redis_get (session_key sessionId) (redis st) of
        Inl e \<Rightarrow> None
      | Inr v \<Rightarrow> v)"

text \<open>\<^verbatim>\<open>deleteSession\<close>: the catch block logs and swallows the error.\<close>

definition deleteSession :: "string \<Rightarrow> WebRTCService \<Rightarrow> WebRTCService" where
  "deleteSession sessionId st =
     (case redis_del (session_key sessionId) (redis st) of
        Inl e \<Rightarrow> st
      | Inr r \<Rightarrow> st\<lparr>redis := r\<rparr>)"

text \<open>
  \<^verbatim>\<open>createSession\<close>: the session is put into the map first, then written through;
  a failing write is logged and rethrown.
\<close>

definition createSession ::
  "string \<Rightarrow> int \<Rightarrow> string \<Rightarrow> string \<Rightarrow> WebRTCService \<Rightarrow> (error + session) \<times> WebRTCService" where
  "createSession sessionId now userId type st =
     (let sess = \<lparr>s_id = sessionId, s_userId = userId, s_type = type, s_status = Created,
                  createdAt = now, participants = [], iceConfiguration = getIceServers st\<rparr>;
          st1 = st\<lparr>activeSessions := AList.update sessionId sess (activeSessions st)\<rparr>
      in case storeSession sessionId sess st1 of
           Inl e \<Rightarrow> (Inl e, st1)
         | Inr st2 \<Rightarrow> (Inr sess, st2))"

text \<open>
  \<^verbatim>\<open>joinSession\<close>: the session object is the one the map holds, so \<^verbatim>\<open>push\<close> and
  the assignment of \<^verbatim>\<open>status\<close> change the map's entry before the write-through runs.
\<close>

definition joinSession ::
  "string \<Rightarrow> string \<Rightarrow> string \<Rightarrow> int \<Rightarrow> WebRTCService \<Rightarrow> (error + session) \<times> WebRTCService" where
  "joinSession sessionId userId sockId now st =
     (let found =
            (case map_of (activeSessions st) sessionId of
               Some sess \<Rightarrow> Some (sess, st)
             | None \<Rightarrow>
                 (case getSession sessionId st of
                    None \<Rightarrow> None
                  | Some sess \<Rightarrow>
                      Some (sess, st\<lparr>activeSessions := AList.update sessionId sess (activeSessions st)\<rparr>)))
      in case found of
           None \<Rightarrow> (Inl (Error ''Session not found''), st)
         | Some (sess, st1) \<Rightarrow>
             (let p = \<lparr>p_userId = userId, socketId = sockId, joinedAt = now, p_status = Connected\<rparr>;
                  sess1 = sess\<lparr>participants := participants sess @ [p], s_status := Active\<rparr>;
                  st2 = st1\<lparr>activeSessions := AList.update sessionId sess1 (activeSessions st1)\<rparr>
              in case storeSession sessionId sess1 st2 of
                   Inl e \<Rightarrow> (Inl e, st2)
                 | Inr st3 \<Rightarrow> (Inr sess1, st3)))"

text \<open>
  \<^verbatim>\<open>leaveSession\<close> looks only into the map. The filtered list is assigned to the
  map's object; an emptied session is marked ended and removed from the map and from Redis
  (\<^verbatim>\<open>deleteSession\<close> swallows a Redis failure), any other is written through.
\<close>

definition leaveSession ::
  "string \<Rightarrow> string \<Rightarrow> WebRTCService \<Rightarrow> (error + session) \<times> WebRTCService" where
  "leaveSession sessionId userId st =
     (case map_of (activeSessions st) sessionId of
        None \<Rightarrow> (Inl (Error ''Session not found''), st)
      | Some sess \<Rightarrow>
          (let sess1 = sess\<lparr>participants := filter (\<lambda>p. p_userId p \<noteq> userId) (participants sess)\<rparr>
           in if length (participants sess1) = 0
              then (let sess2 = sess1\<lparr>s_status := Ended\<rparr>;
                        st1 = st\<lparr>activeSessions := AList.delete sessionId (activeSessions st)\<rparr>
                    in (Inr sess2, deleteSession sessionId st1))
              else (let st1 = st\<lparr>activeSessions := AList.update sessionId sess1 (activeSessions st)\<rparr>
                    in case storeSession sessionId sess1 st1 of
                         Inl e \<Rightarrow> (Inl e, st1)
                       | Inr st2 \<Rightarrow> (Inr sess1, st2))))"

text \<open>
  \<^verbatim>\<open>cleanupExpiredSessions\<close>: the loop over the map's entries removes the entry it
  stands on when the session was created more than an hour before \<open>now\<close>, and asks Redis
  to delete it. Nothing in the body can throw.
\<close>

fun cleanupLoop :: "(string \<times> session) list \<Rightarrow> int \<Rightarrow> WebRTCService \<Rightarrow> WebRTCService" where
  "cleanupLoop [] oneHourAgo st = st"
| "cleanupLoop ((sessionId, sess) # rest) oneHourAgo st =
     (if createdAt sess < oneHourAgo
      then cleanupLoop rest oneHourAgo
             (deleteSession sessionId
                (st\<lparr>activeSessions := AList.delete sessionId (activeSessions st)\<rparr>))
      else cleanupLoop rest oneHourAgo st)"

definition cleanupExpiredSessions :: "int \<Rightarrow> WebRTCService \<Rightarrow> WebRTCService" where
  "cleanupExpiredSessions now st =
     (let oneHourAgo = now - 60 * 60 * 1000
      in cleanupLoop (activeSessions st) oneHourAgo st)"

definition getAllActiveSessions :: "WebRTCService \<Rightarrow> session list" where
  "getAllActiveSessions st = map snd (activeSessions st)"

text \<open>
  The signalling calls of the service. \<^verbatim>\<open>createOffer\<close>, \<^verbatim>\<open>createAnswer\<close> and
  \<^verbatim>\<open>handleIceCandidate\<close> ask only that the session is in the map;
  \<^verbatim>\<open>handleSignaling\<close> also asks that the user is one of its participants. None of
  them changes the service.
\<close>

record sdp_message =
  m_sessionId :: string
  m_userId :: string
  m_type :: string
  m_sdp :: string
  m_timestamp :: int

record ice_candidate =
  candidate :: string
  sdpMLineIndex :: int
  sdpMid :: string

record ice_message =
  i_sessionId :: string
  i_userId :: string
  i_type :: string
  i_candidate :: string
  i_sdpMLineIndex :: int
  i_sdpMid :: string
  i_timestamp :: int

record signaling_data =
  sd_type :: string
  sd_data :: string

record signaling_message =
  g_sessionId :: string
  g_userId :: string
  g_type :: string
  g_data :: string
  g_timestamp :: int

definition handleSignaling ::
  "string \<Rightarrow> string \<Rightarrow> signaling_data \<Rightarrow> int \<Rightarrow> WebRTCService \<Rightarrow> error + signaling_message" where
  "handleSignaling sessionId userId signalingData now st =
     (case map_of (activeSessions st) sessionId of
        None \<Rightarrow> Inl (Error ''Session not found'')
      | Some sess \<Rightarrow>
          (case find (\<lambda>p. p_userId p = userId) (participants sess) of
             None \<Rightarrow> Inl (Error ''Participant not found in session'')
           | Some p \<Rightarrow>
               Inr \<lparr>g_sessionId = sessionId, g_userId = userId, g_type = sd_type signalingData,
                    g_data = sd_data signalingData, g_timestamp = now\<rparr>))"

definition createOffer ::
  "string \<Rightarrow> string \<Rightarrow> string \<Rightarrow> int \<Rightarrow> WebRTCService \<Rightarrow> error + sdp_message" where
  "createOffer sessionId userId sdp now st =
     (case map_of (activeSessions st) sessionId of
        None \<Rightarrow> Inl (Error ''Session not found'')
      | Some sess \<Rightarrow>
          Inr \<lparr>m_sessionId = sessionId, m_userId = userId, m_type = ''offer'', m_sdp = sdp,
               m_timestamp = now\<rparr>)"

definition createAnswer ::
  "string \<Rightarrow> string \<Rightarrow> string \<Rightarrow> int \<Rightarrow> WebRTCService \<Rightarrow> error + sdp_message" where
  "createAnswer sessionId userId sdp now st =
     (case map_of (activeSessions st) sessionId of
        None \<Rightarrow> Inl (Error ''Session not found'')
      | Some sess \<Rightarrow>
          Inr \<lparr>m_sessionId = sessionId, m_userId = userId, m_type = ''answer'', m_sdp = sdp,
               m_timestamp = now\<rparr>)"

definition handleIceCandidate ::
  "string \<Rightarrow> string \<Rightarrow> ice_candidate \<Rightarrow> int \<Rightarrow> WebRTCService \<Rightarrow> error + ice_message" where
  "handleIceCandidate sessionId userId candidateData now st =
     (case map_of (activeSessions st) sessionId of
        None \<Rightarrow> Inl (Error ''Session not found'')
      | Some sess \<Rightarrow>
          Inr \<lparr>i_sessionId = sessionId, i_userId = userId, i_type = ''ice-candidate'',
               i_candidate = candidate candidateData,
               i_sdpMLineIndex = sdpMLineIndex candidateData,
               i_sdpMid = sdpMid candidateData, i_timestamp = now\<rparr>)"

section \<open>Signalling relay: the socket handler\<close>

text \<open>
  \<^verbatim>\<open>handleConnection\<close> registers one handler per event on a socket. A socket carries
  its id, the \<^verbatim>\<open>userId\<close> that \<^verbatim>\<open>authenticate\<close> stores on it (absent until then) and
  the rooms it has joined. The handler state holds the sockets of the server, the
  \<^verbatim>\<open>connectedClients\<close> map and the WebRTC service. Each handler returns the emissions it
  makes, in order, and the new state. An event arrives with or without a payload. Every
  handler begins, inside its \<^verbatim>\<open>try\<close> block, by destructuring the payload: an absent
  payload (\<^verbatim>\<open>undefined\<close> or \<^verbatim>\<open>null\<close>) makes that throw, and the handler's catch block
  answers before any other test has run. A payload that is present is an object; it
  carries the fields of its kind, except the token, which the handler itself tests.
  The handlers of \<^verbatim>\<open>call:accept-inbound\<close>, \<^verbatim>\<open>call:quality-report\<close>, \<^verbatim>\<open>ping\<close> and
  \<^verbatim>\<open>disconnect\<close> are not part of this development.
\<close>

record jwt_payload =
  jwt_userId :: string
  jwt_hubspotConnected :: bool

record sock =
  sock_id :: string
  sock_userId :: "string option"
  sock_hubspotConnected :: "bool option"
  rooms :: "string list"

record client =
  c_userId :: string
  c_socketId :: string
  connectedAt :: int
  c_hubspotConnected :: bool

datatype payload =
    ErrorPayload string
  | AuthSuccess string string
  | SdpPayload sdp_message
  | IcePayload ice_message
  | ParticipantJoined string string int
  | ParticipantLeft string string int
  | SessionJoined session

record emission =
  target :: string
  event :: string
  body :: payload

record SocketHandler =
  sockets :: "(string \<times> sock) list"
  connectedClients :: "(string \<times> client) list"
  webrtc :: WebRTCService

record auth_data =
  auth_token :: "string option"

record offer_data =
  offer_sessionId :: string
  offer_sdp :: string

record answer_data =
  answer_sessionId :: string
  answer_sdp :: string

record candidate_data =
  candidate_sessionId :: string
  candidate_value :: ice_candidate

record join_data =
  join_sessionId :: string

record leave_data =
  leave_sessionId :: string

text \<open>An event with its payload; \<open>None\<close> is the absent payload.\<close>

datatype message =
    Authenticate "auth_data option"
  | WebrtcOffer "offer_data option"
  | WebrtcAnswer "answer_data option"
  | WebrtcIceCandidate "candidate_data option"
  | SessionJoin "join_data option"
  | SessionLeave "leave_data option"

text \<open>\<^verbatim>\<open>!socket.userId\<close>: an absent value and the empty string are falsy.\<close>

definition falsy :: "string option \<Rightarrow> bool" where
  "falsy v = (case v of None \<Rightarrow> True | Some s \<Rightarrow> s = [])"

definition session_room :: "string \<Rightarrow> string" where
  "session_room sessionId = ''session:'' @ sessionId"

text \<open>\<^verbatim>\<open>socket.emit\<close> reaches the socket itself.\<close>

definition emit :: "sock \<Rightarrow> string \<Rightarrow> payload \<Rightarrow> emission list" where
  "emit socket ev pl = [\<lparr>target = sock_id socket, event = ev, body = pl\<rparr>]"

text \<open>\<^verbatim>\<open>socket.to(room).emit\<close> reaches every socket in the room but the sender.\<close>

definition to_room_emit :: "SocketHandler \<Rightarrow> sock \<Rightarrow> string \<Rightarrow> string \<Rightarrow> payload \<Rightarrow> emission list" where
  "to_room_emit h socket room ev pl =
     map (\<lambda>(i, s). \<lparr>target = i, event = ev, body = pl\<rparr>)
       (filter (\<lambda>(i, s). i \<noteq> sock_id socket \<and> room \<in> set (rooms s)) (sockets h))"

definition socket_join :: "string \<Rightarrow> sock \<Rightarrow> sock" where
  "socket_join room socket =
     (if room \<in> set (rooms socket) then socket else socket\<lparr>rooms := rooms socket @ [room]\<rparr>)"

definition socket_leave :: "string \<Rightarrow> sock \<Rightarrow> sock" where
  "socket_leave room socket = socket\<lparr>rooms := removeAll room (rooms socket)\<rparr>"

definition put_socket :: "sock \<Rightarrow> SocketHandler \<Rightarrow> SocketHandler" where
  "put_socket socket h = h\<lparr>sockets := AList.update (sock_id socket) socket (sockets h)\<rparr>"

text \<open>A new connection: the socket is in the room of its own id and has no user.\<close>

definition handleConnection :: "string \<Rightarrow> SocketHandler \<Rightarrow> SocketHandler" where
  "handleConnection sid h =
     put_socket \<lparr>sock_id = sid, sock_userId = None, sock_hubspotConnected = None, rooms = [sid]\<rparr> h"

text \<open>
  \<^verbatim>\<open>authenticate\<close>: an absent payload lands in the catch block, which answers
  \<open>Authentication failed\<close>.
\<close>

definition on_authenticate ::
  "(string \<Rightarrow> jwt_payload option) \<Rightarrow> sock \<Rightarrow> auth_data option \<Rightarrow> int \<Rightarrow> SocketHandler
     \<Rightarrow> emission list \<times> SocketHandler" where
  "on_authenticate verifyJWT socket data now h =
     (case data of
        None \<Rightarrow> (emit socket ''auth:error'' (ErrorPayload ''Authentication failed''), h)
      | Some d \<Rightarrow>
          (if falsy (auth_token d)
           then (emit socket ''auth:error'' (ErrorPayload ''No token provided''), h)
           else case verifyJWT (the (auth_token d)) of
                  None \<Rightarrow> (emit socket ''auth:error'' (ErrorPayload ''Invalid token''), h)
                | Some decoded \<Rightarrow>
                    (let socket1 = socket\<lparr>sock_userId := Some (jwt_userId decoded),
                                          sock_hubspotConnected := Some (jwt_hubspotConnected decoded)\<rparr>;
                         socket2 = socket_join (''user:'' @ jwt_userId decoded) socket1;
                         h1 = put_socket socket2 h;
                         h2 = h1\<lparr>connectedClients :=
                                 AList.update (sock_id socket)
                                   \<lparr>c_userId = jwt_userId decoded, c_socketId = sock_id socket,
                                    connectedAt = now,
                                    c_hubspotConnected = jwt_hubspotConnected decoded\<rparr>
                                   (connectedClients h1)\<rparr>
                     in (emit socket2 ''auth:success''
                           (AuthSuccess (jwt_userId decoded) (sock_id socket)), h2))))"

text \<open>
  \<^verbatim>\<open>webrtc:offer\<close>, \<^verbatim>\<open>webrtc:answer\<close>, \<^verbatim>\<open>webrtc:ice-candidate\<close>: an absent payload
  and a throwing service call both land in the catch block, which answers
  \<^verbatim>\<open>webrtc:error\<close>.
\<close>

definition on_webrtc_offer ::
  "sock \<Rightarrow> offer_data option \<Rightarrow> int \<Rightarrow> SocketHandler \<Rightarrow> emission list \<times> SocketHandler" where
  "on_webrtc_offer socket data now h =
     (case data of
        None \<Rightarrow> (emit socket ''webrtc:error'' (ErrorPayload ''Failed to send offer''), h)
      | Some d \<Rightarrow>
          (if falsy (sock_userId socket)
           then (emit socket ''error'' (ErrorPayload ''Not authenticated''), h)
           else case createOffer (offer_sessionId d) (the (sock_userId socket)) (offer_sdp d) now
                       (webrtc h) of
                  Inl e \<Rightarrow> (emit socket ''webrtc:error'' (ErrorPayload ''Failed to send offer''), h)
                | Inr offerData \<Rightarrow>
                    (to_room_emit h socket (session_room (offer_sessionId d)) ''webrtc:offer''
                       (SdpPayload offerData), h)))"

definition on_webrtc_answer ::
  "sock \<Rightarrow> answer_data option \<Rightarrow> int \<Rightarrow> SocketHandler \<Rightarrow> emission list \<times> SocketHandler" where
  "on_webrtc_answer socket data now h =
     (case data of
        None \<Rightarrow> (emit socket ''webrtc:error'' (ErrorPayload ''Failed to send answer''), h)
      | Some d \<Rightarrow>
          (if falsy (sock_userId socket)
           then (emit socket ''error'' (ErrorPayload ''Not authenticated''), h)
           else case createAnswer (answer_sessionId d) (the (sock_userId socket)) (answer_sdp d) now
                       (webrtc h) of
                  Inl e \<Rightarrow> (emit socket ''webrtc:error'' (ErrorPayload ''Failed to send answer''), h)
                | Inr answerData \<Rightarrow>
                    (to_room_emit h socket (session_room (answer_sessionId d)) ''webrtc:answer''
                       (SdpPayload answerData), h)))"

definition on_webrtc_ice_candidate ::
  "sock \<Rightarrow> candidate_data option \<Rightarrow> int \<Rightarrow> SocketHandler \<Rightarrow> emission list \<times> SocketHandler" where
  "on_webrtc_ice_candidate socket data now h =
     (case data of
        None \<Rightarrow>
          (emit socket ''webrtc:error'' (ErrorPayload ''Failed to send ICE candidate''), h)
      | Some d \<Rightarrow>
          (if falsy (sock_userId socket)
           then (emit socket ''error'' (ErrorPayload ''Not authenticated''), h)
           else case handleIceCandidate (candidate_sessionId d) (the (sock_userId socket))
                       (candidate_value d) now (webrtc h) of
                  Inl e \<Rightarrow>
                    (emit socket ''webrtc:error'' (ErrorPayload ''Failed to send ICE candidate''), h)
                | Inr iceData \<Rightarrow>
                    (to_room_emit h socket (session_room (candidate_sessionId d))
                       ''webrtc:ice-candidate'' (IcePayload iceData), h)))"

text \<open>
  \<^verbatim>\<open>session:join\<close>: an absent payload lands in the catch block, which answers
  \<^verbatim>\<open>session:error\<close>. Otherwise the socket enters the room before the service is asked,
  and stays there when the service throws.
\<close>

definition on_session_join ::
  "sock \<Rightarrow> join_data option \<Rightarrow> int \<Rightarrow> SocketHandler \<Rightarrow> emission list \<times> SocketHandler" where
  "on_session_join socket data now h =
     (case data of
        None \<Rightarrow> (emit socket ''session:error'' (ErrorPayload ''Failed to join session''), h)
      | Some d \<Rightarrow>
          (if falsy (sock_userId socket)
           then (emit socket ''error'' (ErrorPayload ''Not authenticated''), h)
           else (let sessionId = join_sessionId d;
                     socket1 = socket_join (session_room sessionId) socket;
                     h1 = put_socket socket1 h;
                     r = joinSession sessionId (the (sock_userId socket)) (sock_id socket) now
                           (webrtc h1);
                     h2 = h1\<lparr>webrtc := snd r\<rparr>
                 in case fst r of
                      Inl e \<Rightarrow>
                        (emit socket1 ''session:error'' (ErrorPayload ''Failed to join session''), h2)
                    | Inr sess \<Rightarrow>
                        (to_room_emit h2 socket1 (session_room sessionId) ''participant:joined''
                           (ParticipantJoined (the (sock_userId socket)) sessionId now)
                         @ emit socket1 ''session:joined'' (SessionJoined sess), h2))))"

text \<open>
  \<^verbatim>\<open>session:leave\<close>: the catch block only logs, so an absent payload and a throwing
  service are answered by nothing; a socket without a user makes the handler return at
  once.
\<close>

definition on_session_leave ::
  "sock \<Rightarrow> leave_data option \<Rightarrow> int \<Rightarrow> SocketHandler \<Rightarrow> emission list \<times> SocketHandler" where
  "on_session_leave socket data now h =
     (case data of
        None \<Rightarrow> ([], h)
      | Some d \<Rightarrow>
          (if falsy (sock_userId socket)
           then ([], h)
           else (let sessionId = leave_sessionId d;
                     socket1 = socket_leave (session_room sessionId) socket;
                     h1 = put_socket socket1 h;
                     r = leaveSession sessionId (the (sock_userId socket)) (webrtc h1);
                     h2 = h1\<lparr>webrtc := snd r\<rparr>
                 in case fst r of
                      Inl e \<Rightarrow> ([], h2)
                    | Inr sess \<Rightarrow>
                        (to_room_emit h2 socket1 (session_room sessionId) ''participant:left''
                           (ParticipantLeft (the (sock_userId socket)) sessionId now), h2))))"

text \<open>An event arriving on the connection \<open>sid\<close> runs the handler registered for it.\<close>

definition handle ::
  "(string \<Rightarrow> jwt_payload option) \<Rightarrow> string \<Rightarrow> message \<Rightarrow> int \<Rightarrow> SocketHandler
     \<Rightarrow> emission list \<times> SocketHandler" where
  "handle verifyJWT sid msg now h =
     (case map_of (sockets h) sid of
        None \<Rightarrow> ([], h)
      | Some socket \<Rightarrow>
          (case msg of
             Authenticate data \<Rightarrow> on_authenticate verifyJWT socket data now h
           | WebrtcOffer data \<Rightarrow> on_webrtc_offer socket data now h
           | WebrtcAnswer data \<Rightarrow> on_webrtc_answer socket data now h
           | WebrtcIceCandidate data \<Rightarrow> on_webrtc_ice_candidate socket data now h
           | SessionJoin data \<Rightarrow> on_session_join socket data now h
           | SessionLeave data \<Rightarrow> on_session_leave socket data now h))"

section \<open>Conference bridge: the Twilio service\<close>

text \<open>
  The service of \<^verbatim>\<open>twilioService.js\<close> holds the two caller numbers; \<open>backendUrl\<close> is
  the value of \<^verbatim>\<open>process.env.BACKEND_URL\<close> as the template strings print it. The Twilio
  client is the provider: a request either resolves with the created resource or rejects
  with an error, given here by its message; \<open>calls_settle\<close> is the time the provider
  takes to answer a call request.
\<close>

record TwilioService =
  whatsappNumber :: string
  voiceNumber :: string
  backendUrl :: string

record conference_request =
  friendlyName :: string
  cr_statusCallback :: string
  cr_statusCallbackEvent :: "string list"
  cr_statusCallbackMethod :: string
  cr_record :: string
  recordingStatusCallback :: string

record call_request =
  call_to :: string
  call_from :: string
  call_url :: string
  call_statusCallback :: string
  call_statusCallbackEvent :: "string list"
  call_timeout :: nat

record conference =
  conference_sid :: string

record call =
  call_sid :: string
  call_status :: string

record twilio_client =
  conferences_create :: "conference_request \<Rightarrow> string + conference"
  calls_create :: "call_request \<Rightarrow> string + call"
  calls_settle :: "call_request \<Rightarrow> nat"

record conference_participant =
  number :: string
  isWhatsApp :: bool

record added_participant =
  participantSid :: string
  ap_number :: string
  ap_status :: string

record conference_call =
  conferenceSid :: string
  cc_status :: string
  cc_participants :: nat

text \<open>The request \<^verbatim>\<open>addToConference\<close> sends for one participant.\<close>

definition callRequest :: "TwilioService \<Rightarrow> string \<Rightarrow> conference_participant \<Rightarrow> call_request" where
  "callRequest tw confSid p =
     \<lparr>call_to = number p,
      call_from = (if isWhatsApp p then whatsappNumber tw else voiceNumber tw),
      call_url = backendUrl tw @ ''/api/webhooks/twilio/conference/'' @ confSid @ ''/join'',
      call_statusCallback = backendUrl tw @ ''/api/webhooks/twilio/participant-status'',
      call_statusCallbackEvent = [''answered'', ''completed''],
      call_timeout = 30\<rparr>"

text \<open>\<^verbatim>\<open>addToConference\<close>: the catch block logs and rethrows the provider's error.\<close>

definition addToConference ::
  "TwilioService \<Rightarrow> twilio_client \<Rightarrow> string \<Rightarrow> conference_participant \<Rightarrow> string + added_participant" where
  "addToConference tw client confSid p =
     (case calls_create client (callRequest tw confSid p) of
        Inl msg \<Rightarrow> Inl msg
      | Inr c \<Rightarrow> Inr \<lparr>participantSid = call_sid c, ap_number = number p, ap_status = call_status c\<rparr>)"

text \<open>
  \<^verbatim>\<open>Promise.all\<close> resolves with every value, in the order of its input, when every
  promise resolves, and rejects with the reason of the promise that rejects first. Each
  outcome comes here with the time at which it settles; of two rejections at the same
  time the one earlier in the input is taken.
\<close>

fun first_rejection :: "(nat \<times> (string + 'a)) list \<Rightarrow> (nat \<times> string) option" where
  "first_rejection [] = None"
| "first_rejection ((t, Inl msg) # rest) =
     (case first_rejection rest of
        None \<Rightarrow> Some (t, msg)
      | Some (t', msg') \<Rightarrow> if t' < t then Some (t', msg') else Some (t, msg))"
| "first_rejection ((t, Inr v) # rest) = first_rejection rest"

fun resolved_values :: "(nat \<times> (string + 'a)) list \<Rightarrow> 'a list" where
  "resolved_values [] = []"
| "resolved_values ((t, Inl msg) # rest) = resolved_values rest"
| "resolved_values ((t, Inr v) # rest) = v # resolved_values rest"

definition promise_all :: "(nat \<times> (string + 'a)) list \<Rightarrow> string + 'a list" where
  "promise_all ps =
     (case first_rejection ps of
        None \<Rightarrow> Inr (resolved_values ps)
      | Some (t, msg) \<Rightarrow> Inl msg)"

text \<open>The request \<^verbatim>\<open>createConferenceCall\<close> sends for the conference.\<close>

definition conferenceRequest :: "TwilioService \<Rightarrow> string \<Rightarrow> conference_request" where
  "conferenceRequest tw callId =
     \<lparr>friendlyName = ''whatsapp-call-'' @ callId,
      cr_statusCallback = backendUrl tw @ ''/api/webhooks/twilio/conference'',
      cr_statusCallbackEvent = [''start'', ''end'', ''join'', ''leave''],
      cr_statusCallbackMethod = ''POST'',
      cr_record = ''record-from-start'',
      recordingStatusCallback = backendUrl tw @ ''/api/webhooks/twilio/recording''\<rparr>"

text \<open>
  \<^verbatim>\<open>createConferenceCall\<close>: every leg is requested at once, and each promise
  settles when the provider answers. A rejection of the conference request or of
  \<^verbatim>\<open>Promise.all\<close> lands in the catch block, which throws a new error.
\<close>

definition createConferenceCall ::
  "TwilioService \<Rightarrow> twilio_client \<Rightarrow> string \<Rightarrow> conference_participant list \<Rightarrow> error + conference_call" where
  "createConferenceCall tw client callId ps =
     (case conferences_create client (conferenceRequest tw callId) of
        Inl msg \<Rightarrow> Inl (Error (''Conference call creation failed: '' @ msg))
      | Inr conf \<Rightarrow>
          (case promise_all
                  (map (\<lambda>p. (calls_settle client (callRequest tw (conference_sid conf) p),
                             addToConference tw client (conference_sid conf) p)) ps) of
             Inl msg \<Rightarrow> Inl (Error (''Conference call creation failed: '' @ msg))
           | Inr added \<Rightarrow>
               Inr \<lparr>conferenceSid = conference_sid conf, cc_status = ''created'',
                    cc_participants = length ps\<rparr>))"

section \<open>Runs of the session store\<close>

text \<open>
  A run is a sequence of calls on the service, mixed with what the environment does to
  Redis: it goes down, comes back, or drops a key whose time to live has passed. After
  each call the observer sees the session the call returned, if any (\<^verbatim>\<open>getSession\<close>
  returns the copy Redis holds), and the sessions of \<^verbatim>\<open>getAllActiveSessions\<close>.
\<close>

datatype op =
    CreateSession string int string string
  | JoinSession string string string int
  | LeaveSession string string
  | GetSession string
  | DeleteSession string
  | CleanupExpiredSessions int
  | RedisDown
  | RedisUp
  | RedisExpire string

definition returned :: "(error + session) \<Rightarrow> session list" where
  "returned r = (case r of Inl e \<Rightarrow> [] | Inr sess \<Rightarrow> [sess])"

fun step :: "op \<Rightarrow> WebRTCService \<Rightarrow> session list \<times> WebRTCService" where
  "step (CreateSession sessionId now userId type) st =
     (let r = createSession sessionId now userId type st in (returned (fst r), snd r))"
| "step (JoinSession sessionId userId sockId now) st =
     (let r = joinSession sessionId userId sockId now st in (returned (fst r), snd r))"
| "step (LeaveSession sessionId userId) st =
     (let r = leaveSession sessionId userId st in (returned (fst r), snd r))"
| "step (GetSession sessionId) st =
     ((case getSession sessionId st of None \<Rightarrow> [] | Some sess \<Rightarrow> [sess]), st)"
| "step (DeleteSession sessionId) st = ([], deleteSession sessionId st)"
| "step (CleanupExpiredSessions now) st = ([], cleanupExpiredSessions now st)"
| "step RedisDown st = ([], st\<lparr>redis := (redis st)\<lparr>up := False\<rparr>\<rparr>)"
| "step RedisUp st = ([], st\<lparr>redis := (redis st)\<lparr>up := True\<rparr>\<rparr>)"
| "step (RedisExpire key) st = ([], st\<lparr>redis := (redis st)\<lparr>kv := (kv (redis st))(key := None)\<rparr>\<rparr>)"

text \<open>The observations of a run, one list of sessions per step.\<close>

fun run :: "op list \<Rightarrow> WebRTCService \<Rightarrow> session list list" where
  "run [] st = []"
| "run (x # xs) st =
     (let r = step x st in (fst r @ getAllActiveSessions (snd r)) # run xs (snd r))"

text \<open>A session seen ended while it still lists a participant.\<close>

definition ended_nonempty :: "session \<Rightarrow> bool" where
  "ended_nonempty sess = (s_status sess = Ended \<and> participants sess \<noteq> [])"

text \<open>A session id seen ended at one step and active at a later one.\<close>

fun resurrected :: "session list list \<Rightarrow> bool" where
  "resurrected [] = False"
| "resurrected (obs # later) =
     ((\<exists>a \<in> set obs. s_status a = Ended \<and>
          (\<exists>b \<in> set (concat later). s_id b = s_id a \<and> s_status b = Active))
      \<or> resurrected later)"

text \<open>The ids handed out by \<^verbatim>\<open>uuidv4()\<close> in a run.\<close>

fun created_ids :: "op list \<Rightarrow> string list" where
  "created_ids [] = []"
| "created_ids (CreateSession sessionId now userId type # xs) = sessionId # created_ids xs"
| "created_ids (x # xs) = created_ids xs"

text \<open>
  Whether, in a run, every call of \<^verbatim>\<open>leaveSession\<close> that ends a session finds Redis
  up, so that the delete it issues is carried out.
\<close>

definition ends_session :: "op \<Rightarrow> WebRTCService \<Rightarrow> bool" where
  "ends_session x st =
     (case x of
        LeaveSession sessionId userId \<Rightarrow>
          (case fst (leaveSession sessionId userId st) of
             Inl e \<Rightarrow> False
           | Inr sess \<Rightarrow> s_status sess = Ended)
      | _ \<Rightarrow> False)"

fun ended_deletes_succeed :: "op list \<Rightarrow> WebRTCService \<Rightarrow> bool" where
  "ended_deletes_succeed [] st = True"
| "ended_deletes_succeed (x # xs) st =
     ((if ends_session x st then up (redis st) else True)
      \<and> ended_deletes_succeed xs (snd (step x st)))"

text \<open>The service of a fresh process: no session yet, and nothing of its own in Redis.\<close>

definition new_service :: "string list \<Rightarrow> bool \<Rightarrow> WebRTCService" where
  "new_service stun redis_up =
     \<lparr>stunServers = stun, activeSessions = [], redis = \<lparr>kv = Map.empty, up = redis_up\<rparr>\<rparr>"

text \<open>\<^verbatim>\<open>leaveSession\<close> called once for each user of a list, with what each call gave.\<close>

fun leaveAll :: "string \<Rightarrow> string list \<Rightarrow> WebRTCService \<Rightarrow> (error + session) list \<times> WebRTCService" where
  "leaveAll sessionId [] st = ([], st)"
| "leaveAll sessionId (u # us) st =
     (let r = leaveSession sessionId u st;
          rest = leaveAll sessionId us (snd r)
      in (fst r # fst rest, snd rest))"

text \<open>The outcome that tells the caller the session is gone: a returned session marked ended.\<close>

definition sessionDeleted :: "(error + session) \<Rightarrow> bool" where
  "sessionDeleted r = (case r of Inl e \<Rightarrow> False | Inr sess \<Rightarrow> s_status sess = Ended)"

text \<open>
  The invariant of the two tiers. Every entry of the map, and every session Redis holds,
  satisfies \<open>P\<close> for its key; a session in Redis lies under the key of its own id.
  \<open>good U E\<close> is the instance used below: the session carries the id it is filed under,
  it is not marked ended, its id is one of the ids \<open>U\<close> handed out so far and none of the
  ids \<open>E\<close> of the sessions that have ended.
\<close>

definition store_inv :: "(string \<Rightarrow> session \<Rightarrow> bool) \<Rightarrow> WebRTCService \<Rightarrow> bool" where
  "store_inv P st =
     ((\<forall>(k, s) \<in> set (activeSessions st). P k s) \<and>
      (\<forall>key t s. kv (redis st) key = Some (t, s) \<longrightarrow> key = session_key (s_id s) \<and> P (s_id s) s))"

definition good :: "string set \<Rightarrow> string set \<Rightarrow> string \<Rightarrow> session \<Rightarrow> bool" where
  "good U E k s = (s_id s = k \<and> s_status s \<noteq> Ended \<and> k \<in> U \<and> k \<notin> E)"

section \<open>Concrete states\<close>

text \<open>
  The states the closed theorems below are evaluated on. \<open>example_service\<close> is the
  service after one session was created and its owner joined; \<open>example_pair_service\<close> is
  the same session after a second user joined; \<open>example_aged_service\<close> holds the first
  session and a younger one.
\<close>

definition example_session :: session where
  "example_session =
     \<lparr>s_id = ''s1'', s_userId = ''u1'', s_type = ''voice'', s_status = Active, createdAt = 0,
      participants = [\<lparr>p_userId = ''u1'', socketId = ''c1'', joinedAt = 1, p_status = Connected\<rparr>],
      iceConfiguration = []\<rparr>"

definition example_service :: "bool \<Rightarrow> WebRTCService" where
  "example_service redis_up =
     \<lparr>stunServers = [], activeSessions = [(''s1'', example_session)],
      redis = \<lparr>kv = [session_key ''s1'' \<mapsto> (3600, example_session)], up = redis_up\<rparr>\<rparr>"

definition example_pair :: session where
  "example_pair =
     example_session\<lparr>participants :=
       [\<lparr>p_userId = ''u1'', socketId = ''c1'', joinedAt = 1, p_status = Connected\<rparr>,
        \<lparr>p_userId = ''u2'', socketId = ''c2'', joinedAt = 2, p_status = Connected\<rparr>]\<rparr>"

definition example_pair_service :: "bool \<Rightarrow> WebRTCService" where
  "example_pair_service redis_up =
     \<lparr>stunServers = [], activeSessions = [(''s1'', example_pair)],
      redis = \<lparr>kv = [session_key ''s1'' \<mapsto> (3600, example_pair)], up = redis_up\<rparr>\<rparr>"

definition example_young :: session where
  "example_young =
     \<lparr>s_id = ''s2'', s_userId = ''u2'', s_type = ''voice'', s_status = Created,
      createdAt = 7000000, participants = [], iceConfiguration = []\<rparr>"

definition example_aged_service :: "bool \<Rightarrow> WebRTCService" where
  "example_aged_service redis_up =
     \<lparr>stunServers = [], activeSessions = [(''s1'', example_session), (''s2'', example_young)],
      redis = \<lparr>kv = [session_key ''s1'' \<mapsto> (3600, example_session),
                        session_key ''s2'' \<mapsto> (3600, example_young)],
                up = redis_up\<rparr>\<rparr>"

text \<open>
  A run in which Redis is down while the last participant leaves, and one in which it is
  up throughout.
\<close>

definition resurrection_run :: "op list" where
  "resurrection_run =
     [CreateSession ''s1'' 0 ''u1'' ''voice'', JoinSession ''s1'' ''u1'' ''c1'' 1, RedisDown,
      LeaveSession ''s1'' ''u1'', RedisUp, JoinSession ''s1'' ''u2'' ''c2'' 2]"

definition drain_run :: "op list" where
  "drain_run =
     [CreateSession ''s1'' 0 ''u1'' ''voice'', JoinSession ''s1'' ''u1'' ''c1'' 1,
      LeaveSession ''s1'' ''u1'', JoinSession ''s1'' ''u2'' ''c2'' 2]"

text \<open>A provider that rejects the call to one number and accepts every other request.\<close>

definition example_twilio :: TwilioService where
  "example_twilio =
     \<lparr>whatsappNumber = ''whatsapp:+1234567890'', voiceNumber = ''+1234567891'',
      backendUrl = ''https://backend.example''\<rparr>"

definition example_client :: twilio_client where
  "example_client =
     \<lparr>conferences_create = (\<lambda>r. Inr \<lparr>conference_sid = ''CF1''\<rparr>),
      calls_create = (\<lambda>r. if call_to r = ''+15551234567'' then Inl ''busy''
                            else Inr \<lparr>call_sid = ''CA1'', call_status = ''queued''\<rparr>),
      calls_settle = (\<lambda>r. if call_to r = ''+15551234567'' then 5 else 2)\<rparr>"

text \<open>
  Three connections: \<open>c1\<close> is user \<open>u1\<close> and has joined session \<open>s1\<close>, \<open>c2\<close> is user
  \<open>u2\<close> and has joined nothing, \<open>c3\<close> has not authenticated.
\<close>

definition example_verifyJWT :: "string \<Rightarrow> jwt_payload option" where
  "example_verifyJWT token =
     (if token = ''t1'' then Some \<lparr>jwt_userId = ''u1'', jwt_hubspotConnected = True\<rparr>
      else if token = ''t2'' then Some \<lparr>jwt_userId = ''u2'', jwt_hubspotConnected = True\<rparr>
      else None)"

definition example_relay :: SocketHandler where
  "example_relay =
     \<lparr>sockets =
        [(''c1'', \<lparr>sock_id = ''c1'', sock_userId = Some ''u1'', sock_hubspotConnected = Some True,
                  rooms = [''c1'', ''user:u1'', ''session:s1'']\<rparr>),
         (''c2'', \<lparr>sock_id = ''c2'', sock_userId = Some ''u2'', sock_hubspotConnected = Some True,
                  rooms = [''c2'', ''user:u2'']\<rparr>),
         (''c3'', \<lparr>sock_id = ''c3'', sock_userId = None, sock_hubspotConnected = None,
                  rooms = [''c3'']\<rparr>)],
      connectedClients =
        [(''c1'', \<lparr>c_userId = ''u1'', c_socketId = ''c1'', connectedAt = 0, c_hubspotConnected = True\<rparr>),
         (''c2'', \<lparr>c_userId = ''u2'', c_socketId = ''c2'', connectedAt = 0, c_hubspotConnected = True\<rparr>)],
      webrtc = example_service True\<rparr>"

definition started_relay :: SocketHandler where
  "started_relay =
     \<lparr>sockets = [], connectedClients = [],
      webrtc = snd (createSession ''s1'' 0 ''u1'' ''voice'' (new_service [] True))\<rparr>"

text \<open>Each of these states is reached from a fresh service by the calls of the source.\<close>

lemma example_service_reached:
  "snd (joinSession ''s1'' ''u1'' ''c1'' 1
      (snd (createSession ''s1'' 0 ''u1'' ''voice'' (new_service [] True)))) = example_service True"
  by (simp add: example_service_def example_session_def new_service_def createSession_def
      joinSession_def storeSession_def setEx_def Let_def getIceServers_def)

lemma example_service_down_reached:
  "snd (step RedisDown (example_service True)) = example_service False"
  by (simp add: example_service_def)

lemma example_pair_service_reached:
  "snd (joinSession ''s1'' ''u2'' ''c2'' 2 (example_service True)) = example_pair_service True"
  by (simp add: example_service_def example_pair_service_def example_pair_def example_session_def
      joinSession_def storeSession_def setEx_def Let_def)

lemma example_aged_service_reached:
  "snd (createSession ''s2'' 7000000 ''u2'' ''voice'' (example_service True)) = example_aged_service True"
  by (simp add: example_service_def example_aged_service_def example_young_def example_session_def
      createSession_def storeSession_def setEx_def Let_def getIceServers_def session_key_def)

lemma example_relay_reached:
  "snd (handle example_verifyJWT ''c1'' (SessionJoin (Some \<lparr>join_sessionId = ''s1''\<rparr>)) 1
     (snd (handle example_verifyJWT ''c2'' (Authenticate (Some \<lparr>auth_token = Some ''t2''\<rparr>)) 0
       (snd (handle example_verifyJWT ''c1'' (Authenticate (Some \<lparr>auth_token = Some ''t1''\<rparr>)) 0
         (handleConnection ''c3'' (handleConnection ''c2'' (handleConnection ''c1'' started_relay))))))))
   = example_relay"
  by (simp add: example_relay_def started_relay_def example_service_def example_session_def
      example_verifyJWT_def handle_def handleConnection_def put_socket_def on_authenticate_def
      on_session_join_def falsy_def socket_join_def session_room_def emit_def Let_def
      new_service_def createSession_def joinSession_def storeSession_def setEx_def getIceServers_def)

section \<open>Session store: creation and joining\<close>

text \<open>
  C3, as the code has it: \<^verbatim>\<open>createSession\<close> succeeds exactly when the write-through to
  Redis succeeds. When Redis rejects the write, \<^verbatim>\<open>storeSession\<close> rethrows and
  \<^verbatim>\<open>createSession\<close> rethrows again, so the caller gets the error; the session has been
  put into the in-process map before the write and stays there.
\<close>

theorem createSession_store_failure_propagates:
  "fst (createSession sessionId now userId type st) =
     (if up (redis st)
      then Inr \<lparr>s_id = sessionId, s_userId = userId, s_type = type, s_status = Created,
               createdAt = now, participants = [], iceConfiguration = stunServers st\<rparr>
      else Inl RedisFailure)
   \<and> map_of (activeSessions (snd (createSession sessionId now userId type st))) sessionId =
       Some \<lparr>s_id = sessionId, s_userId = userId, s_type = type, s_status = Created,
             createdAt = now, participants = [], iceConfiguration = stunServers st\<rparr>"
  by (simp add: createSession_def storeSession_def setEx_def Let_def getIceServers_def update_conv')

text \<open>
  C3 as stated fails: with Redis down, \<^verbatim>\<open>createSession\<close> on a fresh service does not
  complete; the Redis error reaches the caller.
\<close>

theorem createSession_redis_down_fails:
  "fst (createSession ''s1'' 0 ''u1'' ''voice'' (new_service [] False)) = Inl RedisFailure"
  by (simp add: createSession_def storeSession_def setEx_def new_service_def Let_def)

text \<open>
  C2, as the code has it: \<^verbatim>\<open>joinSession\<close>, on a session of the map or on one it loads
  from Redis, pushes a new participant entry and removes none, whoever the user is. The
  map then holds the old participants followed by the new entry, the session is active,
  and the user has one entry more than before. The updated session is returned when the
  write-through succeeds; otherwise the Redis error is thrown.
\<close>

theorem joinSession_appends_participant:
  assumes "map_of (activeSessions st) sessionId = Some sess
         \<or> (map_of (activeSessions st) sessionId = None \<and> getSession sessionId st = Some sess)"
  shows "map_of (activeSessions (snd (joinSession sessionId userId sockId now st))) sessionId =
           Some (sess\<lparr>participants := participants sess @
                   [\<lparr>p_userId = userId, socketId = sockId, joinedAt = now, p_status = Connected\<rparr>],
                 s_status := Active\<rparr>)
       \<and> fst (joinSession sessionId userId sockId now st) =
           (if up (redis st)
            then Inr (sess\<lparr>participants := participants sess @
                   [\<lparr>p_userId = userId, socketId = sockId, joinedAt = now, p_status = Connected\<rparr>],
                 s_status := Active\<rparr>)
            else Inl RedisFailure)
       \<and> length (filter (\<lambda>p. p_userId p = userId)
             (participants sess @
                [\<lparr>p_userId = userId, socketId = sockId, joinedAt = now, p_status = Connected\<rparr>])) =
           Suc (length (filter (\<lambda>p. p_userId p = userId) (participants sess)))"
  using assms
proof
  assume "map_of (activeSessions st) sessionId = Some sess"
  then show ?thesis
    by (simp add: joinSession_def storeSession_def setEx_def Let_def update_conv' split: sum.splits)
next
  assume a: "map_of (activeSessions st) sessionId = None \<and> getSession sessionId st = Some sess"
  then have "up (redis st)"
    by (auto simp: getSession_def redis_get_def split: if_splits)
  with a show ?thesis
    by (simp add: joinSession_def storeSession_def setEx_def Let_def update_conv' split: sum.splits)
qed

theorem joinSession_appends_participant_witness:
  "map_of (activeSessions (snd (joinSession ''s1'' ''u1'' ''c2'' 2 (example_service True)))) ''s1'' =
     Some (example_session\<lparr>participants :=
       [\<lparr>p_userId = ''u1'', socketId = ''c1'', joinedAt = 1, p_status = Connected\<rparr>,
        \<lparr>p_userId = ''u1'', socketId = ''c2'', joinedAt = 2, p_status = Connected\<rparr>]\<rparr>)"
proof -
  have h: "map_of (activeSessions (example_service True)) ''s1'' = Some example_session
      \<or> (map_of (activeSessions (example_service True)) ''s1'' = None
          \<and> getSession ''s1'' (example_service True) = Some example_session)"
    by (simp add: example_service_def)
  show ?thesis
    using joinSession_appends_participant[OF h, of "''u1''" "''c2''" 2]
    by (simp add: example_session_def)
qed

text \<open>
  C2 as stated fails: user \<open>u1\<close>, already in session \<open>s1\<close> on channel \<open>c1\<close>, joins again on
  channel \<open>c2\<close>, and the returned session lists \<open>u1\<close> twice.
\<close>

theorem joinSession_rejoin_duplicates:
  "fst (joinSession ''s1'' ''u1'' ''c2'' 2 (example_service True)) =
     Inr (example_session\<lparr>participants :=
       [\<lparr>p_userId = ''u1'', socketId = ''c1'', joinedAt = 1, p_status = Connected\<rparr>,
        \<lparr>p_userId = ''u1'', socketId = ''c2'', joinedAt = 2, p_status = Connected\<rparr>]\<rparr>)"
  by (simp add: example_service_def example_session_def joinSession_def storeSession_def
      setEx_def Let_def)

section \<open>Session store: leaving\<close>

lemma sessionDeleted_simps:
  "sessionDeleted (Inr sess) = (s_status sess = Ended)" "sessionDeleted (Inl e) = False"
  by (simp_all add: sessionDeleted_def)

lemma deleteSession_frame:
  "activeSessions (deleteSession k st) = activeSessions st"
  "stunServers (deleteSession k st) = stunServers st"
  "up (redis (deleteSession k st)) = up (redis st)"
  "kv (redis (deleteSession k st)) =
     (if up (redis st) then (kv (redis st))(session_key k := None) else kv (redis st))"
  by (simp_all add: deleteSession_def redis_del_def)

lemma leaveSession_absent_session:
  "map_of (activeSessions st) sessionId = None \<Longrightarrow>
   leaveSession sessionId userId st = (Inl (Error ''Session not found''), st)"
  by (simp add: leaveSession_def)

lemma leaveAll_absent_session:
  "map_of (activeSessions st) sessionId = None \<Longrightarrow>
   filter sessionDeleted (fst (leaveAll sessionId us st)) = [] \<and> snd (leaveAll sessionId us st) = st"
  by (induction us) (simp_all add: leaveSession_absent_session Let_def sessionDeleted_simps)

lemma leaveSession_drained:
  assumes "map_of (activeSessions st) sessionId = Some sess"
    and "filter (\<lambda>p. p_userId p \<noteq> userId) (participants sess) = []"
  shows "leaveSession sessionId userId st =
     (Inr (sess\<lparr>participants := [], s_status := Ended\<rparr>),
      deleteSession sessionId (st\<lparr>activeSessions := AList.delete sessionId (activeSessions st)\<rparr>))"
  using assms by (simp add: leaveSession_def Let_def)

lemma leaveSession_remaining:
  assumes "map_of (activeSessions st) sessionId = Some sess"
    and "filter (\<lambda>p. p_userId p \<noteq> userId) (participants sess) \<noteq> []"
  shows "leaveSession sessionId userId st =
     (if up (redis st)
      then (Inr (sess\<lparr>participants := filter (\<lambda>p. p_userId p \<noteq> userId) (participants sess)\<rparr>),
            st\<lparr>activeSessions := AList.update sessionId
                  (sess\<lparr>participants := filter (\<lambda>p. p_userId p \<noteq> userId) (participants sess)\<rparr>)
                  (activeSessions st),
                redis := (redis st)\<lparr>kv := (kv (redis st))(session_key sessionId \<mapsto>
                  (3600, sess\<lparr>participants := filter (\<lambda>p. p_userId p \<noteq> userId) (participants sess)\<rparr>))\<rparr>\<rparr>)
      else (Inl RedisFailure,
            st\<lparr>activeSessions := AList.update sessionId
                  (sess\<lparr>participants := filter (\<lambda>p. p_userId p \<noteq> userId) (participants sess)\<rparr>)
                  (activeSessions st)\<rparr>))"
  using assms by (simp add: leaveSession_def Let_def storeSession_def setEx_def)

text \<open>
  Leaving once for each user of a list that covers the participants, with Redis up: one
  call, and only one, returns the session marked ended, and the session is then in
  neither tier. Induction on the list of users, the service and the session generalised.
\<close>

lemma leaveAll_drain:
  assumes "map_of (activeSessions st) sessionId = Some sess"
    and "s_status sess \<noteq> Ended"
    and "p_userId ` set (participants sess) \<subseteq> set us"
    and "us \<noteq> []"
    and "up (redis st)"
  shows "length (filter sessionDeleted (fst (leaveAll sessionId us st))) = 1
    \<and> map_of (activeSessions (snd (leaveAll sessionId us st))) sessionId = None
    \<and> kv (redis (snd (leaveAll sessionId us st))) (session_key sessionId) = None"
  using assms
proof (induction us arbitrary: st sess)
  case Nil
  then show ?case by simp
next
  case (Cons u us)
  let ?rest = "filter (\<lambda>p. p_userId p \<noteq> u) (participants sess)"
  show ?case
  proof (cases "?rest = []")
    case True
    let ?st1 = "deleteSession sessionId (st\<lparr>activeSessions := AList.delete sessionId (activeSessions st)\<rparr>)"
    have l: "leaveSession sessionId u st = (Inr (sess\<lparr>participants := [], s_status := Ended\<rparr>), ?st1)"
      using leaveSession_drained[OF Cons.prems(1) True] .
    have gone: "map_of (activeSessions ?st1) sessionId = None"
      by (simp add: deleteSession_frame delete_conv')
    have nokey: "kv (redis ?st1) (session_key sessionId) = None"
      using Cons.prems(5) by (simp add: deleteSession_frame)
    from leaveAll_absent_session[OF gone, of us] l gone nokey show ?thesis
      by (simp add: Let_def sessionDeleted_simps)
  next
    case False
    let ?sess1 = "sess\<lparr>participants := ?rest\<rparr>"
    let ?st1 = "st\<lparr>activeSessions := AList.update sessionId ?sess1 (activeSessions st),
                redis := (redis st)\<lparr>kv := (kv (redis st))(session_key sessionId \<mapsto> (3600, ?sess1))\<rparr>\<rparr>"
    have l: "leaveSession sessionId u st = (Inr ?sess1, ?st1)"
      using leaveSession_remaining[OF Cons.prems(1) False] Cons.prems(5) by simp
    have a: "map_of (activeSessions ?st1) sessionId = Some ?sess1"
      by (simp add: update_conv')
    have b: "s_status ?sess1 \<noteq> Ended" using Cons.prems(2) by simp
    have c: "p_userId ` set (participants ?sess1) \<subseteq> set us"
      using Cons.prems(3) by auto
    have d: "us \<noteq> []"
    proof
      assume "us = []"
      with c have "?rest = []" by simp
      with False show False by simp
    qed
    have e: "up (redis ?st1)" using Cons.prems(5) by simp
    from Cons.IH[OF a b c d e] l b show ?thesis
      by (simp add: Let_def sessionDeleted_simps)
  qed
qed

text \<open>
  C6, as the code has it, for a session of the in-process map. When the user's leaving
  empties the participant list, \<^verbatim>\<open>leaveSession\<close> returns the session marked ended with no
  participants and removes it from the map; the Redis key is removed when Redis is up and
  stays when the delete fails, for \<^verbatim>\<open>deleteSession\<close> swallows the failure. When
  participants remain, the map holds the updated session; it is written through and
  returned when Redis is up, and the Redis error is thrown otherwise. With Redis up,
  leaving once for each user of a list that covers the participants gives exactly one
  ended outcome and leaves the session in neither tier.
\<close>

theorem leaveSession_outcomes:
  assumes "map_of (activeSessions st) sessionId = Some sess"
  shows "(filter (\<lambda>p. p_userId p \<noteq> userId) (participants sess) = [] \<longrightarrow>
            fst (leaveSession sessionId userId st) = Inr (sess\<lparr>participants := [], s_status := Ended\<rparr>)
          \<and> map_of (activeSessions (snd (leaveSession sessionId userId st))) sessionId = None
          \<and> kv (redis (snd (leaveSession sessionId userId st))) (session_key sessionId) =
              (if up (redis st) then None else kv (redis st) (session_key sessionId)))
       \<and> (filter (\<lambda>p. p_userId p \<noteq> userId) (participants sess) \<noteq> [] \<longrightarrow>
            map_of (activeSessions (snd (leaveSession sessionId userId st))) sessionId =
              Some (sess\<lparr>participants := filter (\<lambda>p. p_userId p \<noteq> userId) (participants sess)\<rparr>)
          \<and> fst (leaveSession sessionId userId st) =
              (if up (redis st)
               then Inr (sess\<lparr>participants := filter (\<lambda>p. p_userId p \<noteq> userId) (participants sess)\<rparr>)
               else Inl RedisFailure)
          \<and> kv (redis (snd (leaveSession sessionId userId st))) (session_key sessionId) =
              (if up (redis st)
               then Some (3600, sess\<lparr>participants := filter (\<lambda>p. p_userId p \<noteq> userId) (participants sess)\<rparr>)
               else kv (redis st) (session_key sessionId)))
       \<and> (up (redis st) \<and> s_status sess \<noteq> Ended \<and> us \<noteq> []
            \<and> p_userId ` set (participants sess) \<subseteq> set us \<longrightarrow>
            length (filter sessionDeleted (fst (leaveAll sessionId us st))) = 1
          \<and> map_of (activeSessions (snd (leaveAll sessionId us st))) sessionId = None
          \<and> kv (redis (snd (leaveAll sessionId us st))) (session_key sessionId) = None)"
proof (intro conjI impI)
  assume e: "filter (\<lambda>p. p_userId p \<noteq> userId) (participants sess) = []"
  note l = leaveSession_drained[OF assms e]
  show "fst (leaveSession sessionId userId st) = Inr (sess\<lparr>participants := [], s_status := Ended\<rparr>)"
    by (simp add: l)
  show "map_of (activeSessions (snd (leaveSession sessionId userId st))) sessionId = None"
    by (simp add: l deleteSession_frame delete_conv')
  show "kv (redis (snd (leaveSession sessionId userId st))) (session_key sessionId) =
      (if up (redis st) then None else kv (redis st) (session_key sessionId))"
    by (simp add: l deleteSession_frame)
next
  assume n: "filter (\<lambda>p. p_userId p \<noteq> userId) (participants sess) \<noteq> []"
  note l = leaveSession_remaining[OF assms n]
  show "map_of (activeSessions (snd (leaveSession sessionId userId st))) sessionId =
      Some (sess\<lparr>participants := filter (\<lambda>p. p_userId p \<noteq> userId) (participants sess)\<rparr>)"
    by (simp add: l update_conv')
  show "fst (leaveSession sessionId userId st) =
      (if up (redis st)
       then Inr (sess\<lparr>participants := filter (\<lambda>p. p_userId p \<noteq> userId) (participants sess)\<rparr>)
       else Inl RedisFailure)"
    by (simp add: l)
  show "kv (redis (snd (leaveSession sessionId userId st))) (session_key sessionId) =
      (if up (redis st)
       then Some (3600, sess\<lparr>participants := filter (\<lambda>p. p_userId p \<noteq> userId) (participants sess)\<rparr>)
       else kv (redis st) (session_key sessionId))"
    by (simp add: l)
next
  assume a: "up (redis st) \<and> s_status sess \<noteq> Ended \<and> us \<noteq> []
      \<and> p_userId ` set (participants sess) \<subseteq> set us"
  then have d: "length (filter sessionDeleted (fst (leaveAll sessionId us st))) = 1
    \<and> map_of (activeSessions (snd (leaveAll sessionId us st))) sessionId = None
    \<and> kv (redis (snd (leaveAll sessionId us st))) (session_key sessionId) = None"
    using leaveAll_drain[OF assms, of us] by blast
  from d show "length (filter sessionDeleted (fst (leaveAll sessionId us st))) = 1" by blast
  from d show "map_of (activeSessions (snd (leaveAll sessionId us st))) sessionId = None" by blast
  from d show "kv (redis (snd (leaveAll sessionId us st))) (session_key sessionId) = None" by blast
qed

theorem leaveSession_outcomes_witness:
  "fst (leaveSession ''s1'' ''u1'' (example_service True)) =
     Inr (example_session\<lparr>participants := [], s_status := Ended\<rparr>)
   \<and> map_of (activeSessions (snd (leaveSession ''s1'' ''u1'' (example_service True)))) ''s1'' = None
   \<and> kv (redis (snd (leaveSession ''s1'' ''u1'' (example_service True)))) (session_key ''s1'') = None
   \<and> fst (leaveSession ''s1'' ''u1'' (example_pair_service True)) =
     Inr (example_pair\<lparr>participants :=
       [\<lparr>p_userId = ''u2'', socketId = ''c2'', joinedAt = 2, p_status = Connected\<rparr>]\<rparr>)
   \<and> length (filter sessionDeleted (fst (leaveAll ''s1'' [''u1'', ''u2''] (example_pair_service True)))) = 1
   \<and> map_of (activeSessions (snd (leaveAll ''s1'' [''u1'', ''u2''] (example_pair_service True)))) ''s1'' = None
   \<and> kv (redis (snd (leaveAll ''s1'' [''u1'', ''u2''] (example_pair_service True)))) (session_key ''s1'') = None"
proof -
  have h1: "map_of (activeSessions (example_service True)) ''s1'' = Some example_session"
    by (simp add: example_service_def)
  have u1: "up (redis (example_service True))"
    by (simp add: example_service_def)
  have e1: "filter (\<lambda>p. p_userId p \<noteq> ''u1'') (participants example_session) = []"
    by (simp add: example_session_def)
  have h2: "map_of (activeSessions (example_pair_service True)) ''s1'' = Some example_pair"
    by (simp add: example_pair_service_def)
  have u2: "up (redis (example_pair_service True))"
    by (simp add: example_pair_service_def)
  have n2: "filter (\<lambda>p. p_userId p \<noteq> ''u1'') (participants example_pair) =
      [\<lparr>p_userId = ''u2'', socketId = ''c2'', joinedAt = 2, p_status = Connected\<rparr>]"
    by (simp add: example_pair_def)
  have c2: "s_status example_pair \<noteq> Ended \<and> [''u1'', ''u2''] \<noteq> []
      \<and> p_userId ` set (participants example_pair) \<subseteq> set [''u1'', ''u2'']"
    by (simp add: example_pair_def example_session_def)
  show ?thesis
    using leaveSession_outcomes[OF h1, of "''u1''" "[''u1'']"]
      leaveSession_outcomes[OF h2, of "''u1''" "[''u1'', ''u2'']"] u1 e1 u2 n2 c2
    by (simp del: leaveAll.simps)
qed

text \<open>
  C6 as stated fails: with Redis down, the last participant leaves, the call reports the
  session ended, and Redis still holds the session's entry.
\<close>

theorem leaveSession_redis_down_keeps_cache_entry:
  "sessionDeleted (fst (leaveSession ''s1'' ''u1'' (example_service False)))
   \<and> kv (redis (snd (leaveSession ''s1'' ''u1'' (example_service False)))) (session_key ''s1'') =
       Some (3600, example_session)"
  by (simp add: example_service_def example_session_def leaveSession_def deleteSession_def
      redis_del_def sessionDeleted_def Let_def)

text \<open>
  C10, as the code has it: for a session of the in-process map with participants, and a
  user who is none of them, \<^verbatim>\<open>leaveSession\<close> leaves the map as it was and deletes
  nothing. When Redis is up the unchanged session is written through and returned; when
  the write fails the Redis error is thrown to the caller.
\<close>

theorem leaveSession_absent_user_noop:
  assumes "map_of (activeSessions st) sessionId = Some sess"
    and "participants sess \<noteq> []"
    and "userId \<notin> p_userId ` set (participants sess)"
  shows "activeSessions (snd (leaveSession sessionId userId st)) = activeSessions st
       \<and> fst (leaveSession sessionId userId st) = (if up (redis st) then Inr sess else Inl RedisFailure)
       \<and> kv (redis (snd (leaveSession sessionId userId st))) =
           (if up (redis st) then (kv (redis st))(session_key sessionId \<mapsto> (3600, sess))
            else kv (redis st))"
proof -
  have f: "filter (\<lambda>p. p_userId p \<noteq> userId) (participants sess) = participants sess"
    using assms(3) by (auto simp: filter_id_conv)
  show ?thesis
    using assms(1,2) f
    by (simp add: leaveSession_def storeSession_def setEx_def Let_def update_triv)
qed

theorem leaveSession_absent_user_noop_witness:
  "activeSessions (snd (leaveSession ''s1'' ''u2'' (example_service True))) =
     activeSessions (example_service True)
   \<and> fst (leaveSession ''s1'' ''u2'' (example_service True)) = Inr example_session"
proof -
  have h: "map_of (activeSessions (example_service True)) ''s1'' = Some example_session"
    by (simp add: example_service_def)
  have u: "up (redis (example_service True))"
    by (simp add: example_service_def)
  have n: "participants example_session \<noteq> []"
    by (simp add: example_session_def)
  have a: "''u2'' \<notin> p_userId ` set (participants example_session)"
    by (simp add: example_session_def)
  show ?thesis
    using leaveSession_absent_user_noop[OF h n a] u by simp
qed

text \<open>
  C10 as stated fails: with Redis down, user \<open>u2\<close>, who is not in session \<open>s1\<close>, leaves
  it, and the call throws.
\<close>

theorem leaveSession_absent_user_redis_down_fails:
  "fst (leaveSession ''s1'' ''u2'' (example_service False)) = Inl RedisFailure"
  by (simp add: example_service_def example_session_def leaveSession_def storeSession_def
      setEx_def Let_def)

section \<open>Session store: the expiry sweep\<close>

text \<open>
  What the loop does to the map, to Redis's availability and to Redis's keys, each by
  induction on the entries with the service generalised.
\<close>

lemma cleanupLoop_sessions:
  "activeSessions (cleanupLoop es t st) =
     filter (\<lambda>(k, s). k \<notin> set (map fst (filter (\<lambda>(k, s). createdAt s < t) es))) (activeSessions st)"
proof (induction es arbitrary: st)
  case Nil
  then show ?case by simp
next
  case (Cons e es)
  obtain k s where e: "e = (k, s)" by (cases e)
  show ?case
  proof (cases "createdAt s < t")
    case True
    have "activeSessions (cleanupLoop (e # es) t st) =
        filter (\<lambda>(k, s). k \<notin> set (map fst (filter (\<lambda>(k, s). createdAt s < t) es)))
          (AList.delete k (activeSessions st))"
      using True by (simp add: e Cons.IH deleteSession_frame)
    also have "\<dots> = filter (\<lambda>(k', s). k' \<notin> set (map fst (filter (\<lambda>(k, s). createdAt s < t) es)) \<and> k \<noteq> k')
          (activeSessions st)"
      by (auto simp: AList.delete_eq intro!: filter_cong)
    also have "\<dots> = filter (\<lambda>(k', s). k' \<notin> set (map fst (filter (\<lambda>(k, s). createdAt s < t) (e # es))))
          (activeSessions st)"
      using True by (intro filter_cong refl) (auto simp: e)
    finally show ?thesis .
  next
    case False
    then show ?thesis by (simp add: e Cons.IH)
  qed
qed

lemma cleanupLoop_kv_down:
  "\<not> up (redis st) \<Longrightarrow> kv (redis (cleanupLoop es t st)) = kv (redis st)"
proof (induction es arbitrary: st)
  case Nil
  then show ?case by simp
next
  case (Cons e es)
  obtain k s where e: "e = (k, s)" by (cases e)
  have d: "\<not> up (redis (deleteSession k (st\<lparr>activeSessions := AList.delete k (activeSessions st)\<rparr>)))"
    using Cons.prems by (simp add: deleteSession_frame)
  show ?case
    using Cons.IH[OF d] Cons.IH[OF Cons.prems] Cons.prems
    by (simp add: e deleteSession_frame)
qed

lemma cleanupLoop_kv_up:
  "up (redis st) \<Longrightarrow> kv (redis (cleanupLoop es t st)) key =
     (if key \<in> set (map (session_key \<circ> fst) (filter (\<lambda>(k, s). createdAt s < t) es)) then None
      else kv (redis st) key)"
proof (induction es arbitrary: st)
  case Nil
  then show ?case by simp
next
  case (Cons e es)
  obtain k s where e: "e = (k, s)" by (cases e)
  let ?st1 = "deleteSession k (st\<lparr>activeSessions := AList.delete k (activeSessions st)\<rparr>)"
  have u: "up (redis ?st1)"
    using Cons.prems by (simp add: deleteSession_frame)
  have k1: "kv (redis ?st1) key = (if key = session_key k then None else kv (redis st) key)"
    using Cons.prems by (simp add: deleteSession_frame)
  show ?case
  proof (cases "createdAt s < t")
    case True
    then show ?thesis
      using Cons.IH[OF u] k1 by (auto simp: e)
  next
    case False
    then show ?thesis
      using Cons.IH[OF Cons.prems] by (simp add: e)
  qed
qed

text \<open>With distinct keys, a key belongs to an expired entry exactly when its own session is expired.\<close>

lemma distinct_expired:
  assumes "distinct (map fst es)" and "(k, s) \<in> set es"
  shows "k \<in> set (map fst (filter (\<lambda>(k, s). createdAt s < t) es)) \<longleftrightarrow> createdAt s < t"
proof
  assume "k \<in> set (map fst (filter (\<lambda>(k, s). createdAt s < t) es))"
  then obtain s' where s': "(k, s') \<in> set es" "createdAt s' < t" by auto
  from assms s'(1) have "s = s'" by (rule eq_key_imp_eq_value)
  with s'(2) show "createdAt s < t" by simp
next
  assume "createdAt s < t"
  with assms(2) show "k \<in> set (map fst (filter (\<lambda>(k, s). createdAt s < t) es))" by force
qed

text \<open>
  C8, as the code has it. A JavaScript \<^verbatim>\<open>Map\<close> has no key twice, which is the
  hypothesis. The sweep removes from the in-process map exactly the sessions created
  more than one hour (3600000 ms) before \<open>now\<close>, whatever their participants, and leaves
  every other entry as it was and where it was. For each removed session it asks Redis to
  delete the session's key: when Redis is up those keys, and no others, are gone; when
  Redis is down the failures are swallowed and Redis keeps every key.
\<close>

theorem cleanupExpiredSessions_effect:
  assumes "distinct (map fst (activeSessions st))"
  shows "activeSessions (cleanupExpiredSessions now st) =
           filter (\<lambda>(k, s). \<not> createdAt s < now - 3600000) (activeSessions st)
       \<and> kv (redis (cleanupExpiredSessions now st)) key =
           (if up (redis st) \<and>
               key \<in> set (map (session_key \<circ> fst)
                         (filter (\<lambda>(k, s). createdAt s < now - 3600000) (activeSessions st)))
            then None else kv (redis st) key)"
proof
  have "activeSessions (cleanupExpiredSessions now st) =
      filter (\<lambda>(k, s). k \<notin> set (map fst (filter (\<lambda>(k, s). createdAt s < now - 3600000) (activeSessions st))))
        (activeSessions st)"
    by (simp add: cleanupExpiredSessions_def cleanupLoop_sessions)
  also have "\<dots> = filter (\<lambda>(k, s). \<not> createdAt s < now - 3600000) (activeSessions st)"
  proof (rule filter_cong[OF refl])
    fix x assume x: "x \<in> set (activeSessions st)"
    obtain k s where ks: "x = (k, s)" by (cases x)
    from distinct_expired[OF assms, of k s "now - 3600000"] x ks
    show "(case x of (k, s) \<Rightarrow> k \<notin> set (map fst (filter (\<lambda>(k, s). createdAt s < now - 3600000) (activeSessions st))))
        = (case x of (k, s) \<Rightarrow> \<not> createdAt s < now - 3600000)"
      by simp
  qed
  finally show "activeSessions (cleanupExpiredSessions now st) =
      filter (\<lambda>(k, s). \<not> createdAt s < now - 3600000) (activeSessions st)" .
next
  show "kv (redis (cleanupExpiredSessions now st)) key =
      (if up (redis st) \<and>
          key \<in> set (map (session_key \<circ> fst)
                    (filter (\<lambda>(k, s). createdAt s < now - 3600000) (activeSessions st)))
       then None else kv (redis st) key)"
  proof (cases "up (redis st)")
    case True
    then show ?thesis
      using cleanupLoop_kv_up[OF True, of "activeSessions st" "now - 3600000" key]
      by (simp add: cleanupExpiredSessions_def)
  next
    case False
    then show ?thesis
      using cleanupLoop_kv_down[OF False, of "activeSessions st" "now - 3600000"]
      by (simp add: cleanupExpiredSessions_def)
  qed
qed

theorem cleanupExpiredSessions_effect_witness:
  "activeSessions (cleanupExpiredSessions 7200000 (example_aged_service True)) = [(''s2'', example_young)]
   \<and> kv (redis (cleanupExpiredSessions 7200000 (example_aged_service True))) (session_key ''s1'') = None
   \<and> kv (redis (cleanupExpiredSessions 7200000 (example_aged_service True))) (session_key ''s2'') =
       Some (3600, example_young)"
proof -
  have d: "distinct (map fst (activeSessions (example_aged_service True)))"
    by (simp add: example_aged_service_def)
  show ?thesis
    using cleanupExpiredSessions_effect[OF d, of 7200000 "session_key ''s1''"]
      cleanupExpiredSessions_effect[OF d, of 7200000 "session_key ''s2''"]
    by (simp add: example_aged_service_def example_session_def example_young_def session_key_def)
qed

text \<open>
  C8 as stated fails: with Redis down, the sweep runs two hours after session \<open>s1\<close> was
  created; the session leaves the map and Redis still holds its entry.
\<close>

theorem cleanup_redis_down_keeps_cache_entry:
  "map_of (activeSessions (cleanupExpiredSessions 7200000 (example_service False))) ''s1'' = None
   \<and> kv (redis (cleanupExpiredSessions 7200000 (example_service False))) (session_key ''s1'') =
       Some (3600, example_session)"
  by (simp add: example_service_def example_session_def cleanupExpiredSessions_def
      deleteSession_def redis_del_def)

section \<open>Session store: runs and the terminal state\<close>

lemma session_key_inj: "session_key a = session_key b \<Longrightarrow> a = b"
  by (simp add: session_key_def)

lemma set_update_subset: "set (AList.update k v al) \<subseteq> insert (k, v) (set al)"
  by (induction al) auto

lemma set_delete_subset: "set (AList.delete k al) \<subseteq> {e \<in> set al. fst e \<noteq> k}"
  by (auto simp: AList.delete_eq)

lemma store_inv_mono:
  "store_inv P st \<Longrightarrow> (\<And>k s. P k s \<Longrightarrow> Q k s) \<Longrightarrow> store_inv Q st"
  unfolding store_inv_def by blast

lemma store_inv_lookup:
  "store_inv P st \<Longrightarrow> map_of (activeSessions st) k = Some s \<Longrightarrow> P k s"
  unfolding store_inv_def by (auto dest: map_of_SomeD)

lemma store_inv_update:
  assumes "store_inv P st" "P k v"
  shows "store_inv P (st\<lparr>activeSessions := AList.update k v (activeSessions st)\<rparr>)"
  using assms set_update_subset[of k v "activeSessions st"]
  unfolding store_inv_def by auto

lemma store_inv_delete:
  assumes "store_inv P st"
  shows "store_inv P (st\<lparr>activeSessions := AList.delete k (activeSessions st)\<rparr>)"
  using assms set_delete_subset[of k "activeSessions st"]
  unfolding store_inv_def by auto

lemma store_inv_storeSession:
  assumes "store_inv P st" "P k v" "s_id v = k" "storeSession k v st = Inr st'"
  shows "store_inv P st'"
  using assms
  unfolding store_inv_def storeSession_def setEx_def
  by (auto split: if_splits)

lemma storeSession_sessions:
  "storeSession k v st = Inr st' \<Longrightarrow> activeSessions st' = activeSessions st"
  unfolding storeSession_def setEx_def by (auto split: if_splits)

lemma store_inv_deleteSession:
  assumes "store_inv P st"
  shows "store_inv P (deleteSession k st)"
  using assms
  unfolding store_inv_def deleteSession_def redis_del_def
  by (auto split: if_splits)

lemma store_inv_getSession:
  assumes "store_inv P st" "getSession k st = Some s"
  shows "P k s \<and> s_id s = k"
proof -
  from assms(2) obtain t where "kv (redis st) (session_key k) = Some (t, s)"
    unfolding getSession_def redis_get_def by (auto split: if_splits)
  with assms(1) have "session_key k = session_key (s_id s)" "P (s_id s) s"
    unfolding store_inv_def by blast+
  then show ?thesis using session_key_inj by metis
qed


lemma store_inv_createSession:
  assumes "store_inv P st"
    and "P k \<lparr>s_id = k, s_userId = u, s_type = ty, s_status = Created,
               createdAt = now, participants = [], iceConfiguration = getIceServers st\<rparr>"
  shows "store_inv P (snd (createSession k now u ty st))"
proof -
  let ?sess = "\<lparr>s_id = k, s_userId = u, s_type = ty, s_status = Created,
               createdAt = now, participants = [], iceConfiguration = getIceServers st\<rparr>"
  let ?st1 = "st\<lparr>activeSessions := AList.update k ?sess (activeSessions st)\<rparr>"
  have i1: "store_inv P ?st1" using assms by (rule store_inv_update)
  show ?thesis
  proof (cases "storeSession k ?sess ?st1")
    case (Inl e)
    then show ?thesis using i1 by (simp add: createSession_def Let_def)
  next
    case (Inr st2)
    have "store_inv P st2" using i1 assms(2) _ Inr by (rule store_inv_storeSession) simp
    then show ?thesis using Inr by (simp add: createSession_def Let_def)
  qed
qed

lemma createSession_returned:
  "fst (createSession k now u ty st) = Inr s \<Longrightarrow> s_id s = k \<and> s_status s = Created"
  by (auto simp: createSession_def Let_def split: sum.splits)

lemma joinSession_found:
  assumes "store_inv P st"
    and act: "\<And>s p. P k s \<Longrightarrow> s_id s = k \<Longrightarrow>
          P k (s\<lparr>participants := participants s @ [p], s_status := Active\<rparr>)"
    and idk: "\<And>s. P k s \<Longrightarrow> s_id s = k"
  shows "store_inv P (snd (joinSession k u c now st))
     \<and> (\<forall>s. fst (joinSession k u c now st) = Inr s \<longrightarrow> P k s \<and> s_status s = Active)"
proof -
  let ?p = "\<lparr>p_userId = u, socketId = c, joinedAt = now, p_status = Connected\<rparr>"
  have main: "store_inv P (snd (case storeSession k (sess\<lparr>participants := participants sess @ [?p], s_status := Active\<rparr>)
                 (st1\<lparr>activeSessions := AList.update k (sess\<lparr>participants := participants sess @ [?p], s_status := Active\<rparr>) (activeSessions st1)\<rparr>) of
               Inl e \<Rightarrow> (Inl e, st1\<lparr>activeSessions := AList.update k (sess\<lparr>participants := participants sess @ [?p], s_status := Active\<rparr>) (activeSessions st1)\<rparr>)
             | Inr st3 \<Rightarrow> (Inr (sess\<lparr>participants := participants sess @ [?p], s_status := Active\<rparr>), st3)))"
    if a: "store_inv P st1" and b: "P k sess" for st1 sess
  proof -
    let ?s1 = "sess\<lparr>participants := participants sess @ [?p], s_status := Active\<rparr>"
    let ?st2 = "st1\<lparr>activeSessions := AList.update k ?s1 (activeSessions st1)\<rparr>"
    have p1: "P k ?s1" using act[OF b idk[OF b]] .
    have i2: "store_inv P ?st2" using a p1 by (rule store_inv_update)
    show ?thesis
    proof (cases "storeSession k ?s1 ?st2")
      case (Inl e)
      then show ?thesis using i2 by simp
    next
      case (Inr st3)
      have "store_inv P st3" using i2 p1 _ Inr by (rule store_inv_storeSession) (simp add: idk[OF b])
      then show ?thesis using Inr by simp
    qed
  qed
  show ?thesis
  proof (cases "map_of (activeSessions st) k")
    case (Some sess)
    have b: "P k sess" using assms(1) Some by (rule store_inv_lookup)
    show ?thesis
      using main[OF assms(1) b] act[OF b idk[OF b]] Some
      by (auto simp: joinSession_def Let_def split: sum.splits)
  next
    case None
    show ?thesis
    proof (cases "getSession k st")
      case gn: None
      then show ?thesis using None assms(1) by (simp add: joinSession_def)
    next
      case (Some sess)
      have b: "P k sess" using store_inv_getSession[OF assms(1) Some] by simp
      have a: "store_inv P (st\<lparr>activeSessions := AList.update k sess (activeSessions st)\<rparr>)"
        using assms(1) b by (rule store_inv_update)
      show ?thesis
        using main[OF a b] act[OF b idk[OF b]] Some None
        by (auto simp: joinSession_def Let_def split: sum.splits)
    qed
  qed
qed

lemma leaveSession_inv:
  assumes "store_inv P st"
    and upd: "\<And>s ps. P k s \<Longrightarrow> P k (s\<lparr>participants := ps\<rparr>)"
    and idk: "\<And>s. P k s \<Longrightarrow> s_id s = k"
  shows "store_inv P (snd (leaveSession k u st))"
proof (cases "map_of (activeSessions st) k")
  case None
  then show ?thesis using assms(1) by (simp add: leaveSession_def)
next
  case (Some sess)
  have b: "P k sess" using assms(1) Some by (rule store_inv_lookup)
  let ?s1 = "sess\<lparr>participants := filter (\<lambda>p. p_userId p \<noteq> u) (participants sess)\<rparr>"
  have p1: "P k ?s1" using upd[OF b] .
  show ?thesis
  proof (cases "filter (\<lambda>p. p_userId p \<noteq> u) (participants sess) = []")
    case True
    have "store_inv P (deleteSession k (st\<lparr>activeSessions := AList.delete k (activeSessions st)\<rparr>))"
      using assms(1) by (intro store_inv_deleteSession store_inv_delete)
    then show ?thesis using Some True by (simp add: leaveSession_def Let_def)
  next
    case False
    let ?st1 = "st\<lparr>activeSessions := AList.update k ?s1 (activeSessions st)\<rparr>"
    have i1: "store_inv P ?st1" using assms(1) p1 by (rule store_inv_update)
    show ?thesis
    proof (cases "storeSession k ?s1 ?st1")
      case (Inl e)
      then show ?thesis using i1 Some False by (simp add: leaveSession_def Let_def)
    next
      case (Inr st2)
      have "store_inv P st2" using i1 p1 _ Inr by (rule store_inv_storeSession) (simp add: idk[OF b])
      then show ?thesis using Inr Some False by (simp add: leaveSession_def Let_def)
    qed
  qed
qed

lemma leaveSession_returned:
  assumes "fst (leaveSession k u st) = Inr s"
  shows "\<exists>s0. map_of (activeSessions st) k = Some s0 \<and>
           (if filter (\<lambda>p. p_userId p \<noteq> u) (participants s0) = []
            then s = s0\<lparr>participants := [], s_status := Ended\<rparr>
            else s = s0\<lparr>participants := filter (\<lambda>p. p_userId p \<noteq> u) (participants s0)\<rparr>)"
  using assms
  by (auto simp: leaveSession_def Let_def split: option.splits if_splits sum.splits)

lemma store_inv_cleanupLoop:
  "store_inv P st \<Longrightarrow> store_inv P (cleanupLoop es t st)"
proof (induction es arbitrary: st)
  case Nil
  then show ?case by simp
next
  case (Cons e es)
  obtain k s where e: "e = (k, s)" by (cases e)
  have "store_inv P (deleteSession k (st\<lparr>activeSessions := AList.delete k (activeSessions st)\<rparr>))"
    using Cons.prems by (intro store_inv_deleteSession store_inv_delete)
  then show ?case using Cons by (simp add: e)
qed

lemma store_inv_env:
  assumes "store_inv P st"
  shows "store_inv P (st\<lparr>redis := (redis st)\<lparr>up := b\<rparr>\<rparr>)"
    and "store_inv P (st\<lparr>redis := (redis st)\<lparr>kv := (kv (redis st))(key := None)\<rparr>\<rparr>)"
  using assms unfolding store_inv_def by (auto split: if_splits)


lemma good_observed:
  assumes "store_inv (good U E) st" "s \<in> set (getAllActiveSessions st)"
  shows "s_id s \<notin> E \<and> s_status s \<noteq> Ended"
proof -
  from assms(2) obtain k where "(k, s) \<in> set (activeSessions st)"
    by (auto simp: getAllActiveSessions_def)
  with assms(1) have "good U E k s" unfolding store_inv_def by auto
  then show ?thesis by (simp add: good_def)
qed

lemma leaveSession_ended_inv:
  assumes inv: "store_inv (good U E) st"
    and some: "map_of (activeSessions st) k = Some s0"
    and empty: "filter (\<lambda>p. p_userId p \<noteq> u) (participants s0) = []"
    and u: "up (redis st)"
  shows "store_inv (good U (insert k E)) (snd (leaveSession k u st))"
proof -
  have st': "snd (leaveSession k u st) =
      st\<lparr>activeSessions := AList.delete k (activeSessions st),
         redis := (redis st)\<lparr>kv := (kv (redis st))(session_key k := None)\<rparr>\<rparr>"
    using some empty u by (simp add: leaveSession_def Let_def deleteSession_def redis_del_def)
  have a: "good U (insert k E) k' s'" if "(k', s') \<in> set (AList.delete k (activeSessions st))" for k' s'
  proof -
    from that set_delete_subset[of k "activeSessions st"]
    have "(k', s') \<in> set (activeSessions st)" "k' \<noteq> k" by auto
    with inv show ?thesis unfolding store_inv_def good_def by auto
  qed
  have b: "key = session_key (s_id s) \<and> good U (insert k E) (s_id s) s"
    if "((kv (redis st))(session_key k := None)) key = Some (t, s)" for key t s
  proof -
    from that have ne: "key \<noteq> session_key k" and kv: "kv (redis st) key = Some (t, s)"
      by (auto split: if_splits)
    from inv kv have ks: "key = session_key (s_id s)" and g: "good U E (s_id s) s"
      unfolding store_inv_def by blast+
    from ne ks have "s_id s \<noteq> k" by auto
    with ks g show ?thesis by (simp add: good_def)
  qed
  show ?thesis
    unfolding st' store_inv_def using a b by auto
qed

lemma step_strong:
  assumes inv: "store_inv (good U E) st"
    and EU: "E \<subseteq> U"
    and fresh: "set (created_ids [x]) \<inter> U = {}"
    and del: "ends_session x st \<Longrightarrow> up (redis st)"
  shows "\<exists>E'. E \<subseteq> E' \<and> E' \<subseteq> U \<union> set (created_ids [x])
     \<and> store_inv (good (U \<union> set (created_ids [x])) E') (snd (step x st))
     \<and> (\<forall>s \<in> set (fst (step x st) @ getAllActiveSessions (snd (step x st))).
           s_id s \<notin> E \<and> (s_status s = Ended \<longrightarrow> s_id s \<in> E'))"
proof (cases x)
  case (CreateSession k now u ty)
  have kU: "k \<notin> U" using fresh CreateSession by simp
  then have kE: "k \<notin> E" using EU by auto
  have inv1: "store_inv (good (insert k U) E) st"
    using inv by (rule store_inv_mono) (simp add: good_def)
  have inv2: "store_inv (good (insert k U) E) (snd (createSession k now u ty st))"
    using inv1 by (rule store_inv_createSession) (simp add: good_def kE)
  have ret: "s_id s \<notin> E \<and> s_status s \<noteq> Ended" if "s \<in> set (returned (fst (createSession k now u ty st)))" for s
    using that createSession_returned[of k now u ty st s] kE
    by (auto simp: returned_def split: sum.splits)
  show ?thesis
    apply (rule exI[of _ E])
    using EU inv2 ret good_observed[OF inv2]
    by (auto simp: CreateSession Let_def)
next
  case (JoinSession k u c now)
  have j: "store_inv (good U E) (snd (joinSession k u c now st))
     \<and> (\<forall>s. fst (joinSession k u c now st) = Inr s \<longrightarrow> good U E k s \<and> s_status s = Active)"
    using inv by (rule joinSession_found) (simp_all add: good_def)
  have ret: "s_id s \<notin> E \<and> s_status s \<noteq> Ended" if "s \<in> set (returned (fst (joinSession k u c now st)))" for s
  proof -
    from that have "fst (joinSession k u c now st) = Inr s"
      by (auto simp: returned_def split: sum.splits)
    with j have "good U E k s \<and> s_status s = Active" by blast
    then show ?thesis by (simp add: good_def)
  qed
  show ?thesis
    apply (rule exI[of _ E])
    using EU j ret good_observed[of U E "snd (joinSession k u c now st)"]
    by (auto simp: JoinSession Let_def)
next
  case (LeaveSession k u)
  show ?thesis
  proof (cases "fst (leaveSession k u st)")
    case (Inl e)
    have i: "store_inv (good U E) (snd (leaveSession k u st))"
      using inv by (rule leaveSession_inv) (simp_all add: good_def)
    show ?thesis
      apply (rule exI[of _ E])
      using EU i Inl good_observed[OF i]
      by (auto simp: LeaveSession Let_def returned_def)
  next
    case (Inr s)
    from leaveSession_returned[OF Inr] obtain s0 where
      some: "map_of (activeSessions st) k = Some s0" and
      sh: "if filter (\<lambda>p. p_userId p \<noteq> u) (participants s0) = []
            then s = s0\<lparr>participants := [], s_status := Ended\<rparr>
            else s = s0\<lparr>participants := filter (\<lambda>p. p_userId p \<noteq> u) (participants s0)\<rparr>"
      by blast
    have g0: "good U E k s0" using inv some by (rule store_inv_lookup)
    show ?thesis
    proof (cases "filter (\<lambda>p. p_userId p \<noteq> u) (participants s0) = []")
      case True
      then have s: "s = s0\<lparr>participants := [], s_status := Ended\<rparr>" using sh by simp
      have "ends_session x st" using Inr s by (simp add: ends_session_def LeaveSession)
      then have u: "up (redis st)" by (rule del)
      have i: "store_inv (good U (insert k E)) (snd (leaveSession k u st))"
        using inv some True u by (rule leaveSession_ended_inv)
      have kU: "k \<in> U" "k \<notin> E" "s_id s = k" using g0 s by (simp_all add: good_def)
      have obs: "s_id s' \<notin> E \<and> s_status s' \<noteq> Ended"
        if "s' \<in> set (getAllActiveSessions (snd (leaveSession k u st)))" for s'
        using good_observed[OF i that] by simp
      show ?thesis
        apply (rule exI[of _ "insert k E"])
        using EU i Inr kU obs
        by (auto simp: LeaveSession Let_def returned_def)
    next
      case False
      then have s: "s = s0\<lparr>participants := filter (\<lambda>p. p_userId p \<noteq> u) (participants s0)\<rparr>"
        using sh by simp
      have i: "store_inv (good U E) (snd (leaveSession k u st))"
        using inv by (rule leaveSession_inv) (simp_all add: good_def)
      have kU: "s_id s \<notin> E" "s_status s \<noteq> Ended" using g0 s by (simp_all add: good_def)
      show ?thesis
        apply (rule exI[of _ E])
        using EU i Inr kU good_observed[OF i]
        by (auto simp: LeaveSession Let_def returned_def)
    qed
  qed
next
  case (GetSession k)
  have ret: "s_id s \<notin> E \<and> s_status s \<noteq> Ended" if "getSession k st = Some s" for s
    using store_inv_getSession[OF inv that] by (simp add: good_def)
  show ?thesis
    apply (rule exI[of _ E])
    using EU inv ret good_observed[OF inv]
    by (auto simp: GetSession split: option.splits)
next
  case (DeleteSession k)
  have i: "store_inv (good U E) (deleteSession k st)"
    using inv by (rule store_inv_deleteSession)
  show ?thesis
    apply (rule exI[of _ E])
    using EU i good_observed[OF i]
    by (auto simp: DeleteSession)
next
  case (CleanupExpiredSessions now)
  have i: "store_inv (good U E) (cleanupExpiredSessions now st)"
    unfolding cleanupExpiredSessions_def Let_def using inv by (rule store_inv_cleanupLoop)
  show ?thesis
    apply (rule exI[of _ E])
    using EU i good_observed[OF i]
    by (auto simp: CleanupExpiredSessions)
next
  case RedisDown
  have i: "store_inv (good U E) (st\<lparr>redis := (redis st)\<lparr>up := False\<rparr>\<rparr>)"
    using inv by (rule store_inv_env)
  show ?thesis
    apply (rule exI[of _ E])
    using EU i good_observed[OF i]
    by (auto simp: RedisDown)
next
  case RedisUp
  have i: "store_inv (good U E) (st\<lparr>redis := (redis st)\<lparr>up := True\<rparr>\<rparr>)"
    using inv by (rule store_inv_env)
  show ?thesis
    apply (rule exI[of _ E])
    using EU i good_observed[OF i]
    by (auto simp: RedisUp)
next
  case (RedisExpire key)
  have i: "store_inv (good U E) (st\<lparr>redis := (redis st)\<lparr>kv := (kv (redis st))(key := None)\<rparr>\<rparr>)"
    using inv by (rule store_inv_env)
  show ?thesis
    apply (rule exI[of _ E])
    using EU i good_observed[OF i]
    by (auto simp: RedisExpire)
qed


lemma created_ids_Cons: "created_ids (x # xs) = created_ids [x] @ created_ids xs"
  by (cases x) simp_all

lemma run_strong:
  assumes "store_inv (good U E) st"
    and "E \<subseteq> U"
    and "set (created_ids ops) \<inter> U = {}"
    and "distinct (created_ids ops)"
    and "ended_deletes_succeed ops st"
  shows "\<not> resurrected (run ops st) \<and> (\<forall>obs \<in> set (run ops st). \<forall>s \<in> set obs. s_id s \<notin> E)"
  using assms
proof (induction ops arbitrary: st U E)
  case Nil
  then show ?case by simp
next
  case (Cons x xs)
  let ?st' = "snd (step x st)"
  let ?obs = "fst (step x st) @ getAllActiveSessions ?st'"
  let ?U' = "U \<union> set (created_ids [x])"
  have split: "created_ids (x # xs) = created_ids [x] @ created_ids xs"
    by (rule created_ids_Cons)
  have fresh: "set (created_ids [x]) \<inter> U = {}"
    using Cons.prems(3) split by auto
  have del: "ends_session x st \<Longrightarrow> up (redis st)"
    using Cons.prems(5) by (simp split: if_splits)
  from step_strong[OF Cons.prems(1,2) fresh del] obtain E' where
    E': "E \<subseteq> E'" "E' \<subseteq> ?U'" "store_inv (good ?U' E') ?st'"
    and obs: "\<forall>s \<in> set ?obs. s_id s \<notin> E \<and> (s_status s = Ended \<longrightarrow> s_id s \<in> E')"
    by blast
  have fresh': "set (created_ids xs) \<inter> ?U' = {}"
    using Cons.prems(3,4) split by auto
  have dist': "distinct (created_ids xs)"
    using Cons.prems(4) split by simp
  have del': "ended_deletes_succeed xs ?st'"
    using Cons.prems(5) by simp
  from Cons.IH[OF E'(3) E'(2) fresh' dist' del']
  have ih1: "\<not> resurrected (run xs ?st')"
    and ih2: "\<forall>obs \<in> set (run xs ?st'). \<forall>s \<in> set obs. s_id s \<notin> E'"
    by blast+
  have r: "run (x # xs) st = ?obs # run xs ?st'"
    by (simp add: Let_def)
  have no_res: "\<not> resurrected (?obs # run xs ?st')"
  proof
    assume "resurrected (?obs # run xs ?st')"
    with ih1 obtain a b where a: "a \<in> set ?obs" "s_status a = Ended"
      and b: "b \<in> set (concat (run xs ?st'))" "s_id b = s_id a"
      by auto
    from obs a have "s_id a \<in> E'" by blast
    moreover from b(1) ih2 have "s_id b \<notin> E'" by auto
    ultimately show False using b(2) by simp
  qed
  have ids: "\<forall>obs \<in> set (?obs # run xs ?st'). \<forall>s \<in> set obs. s_id s \<notin> E"
    using obs ih2 E'(1) by auto
  show ?case unfolding r using no_res ids by blast
qed

lemma step_weak:
  assumes inv: "store_inv (good UNIV {}) st"
  shows "store_inv (good UNIV {}) (snd (step x st))
     \<and> (\<forall>s \<in> set (fst (step x st) @ getAllActiveSessions (snd (step x st))). \<not> ended_nonempty s)"
proof -
  have i: "store_inv (good UNIV {}) (snd (step x st))"
  proof (cases x)
    case (CreateSession k now u ty)
    have "store_inv (good UNIV {}) (snd (createSession k now u ty st))"
      using inv by (rule store_inv_createSession) (simp add: good_def)
    then show ?thesis by (simp add: CreateSession Let_def)
  next
    case (JoinSession k u c now)
    have "store_inv (good UNIV {}) (snd (joinSession k u c now st))
       \<and> (\<forall>s. fst (joinSession k u c now st) = Inr s \<longrightarrow> good UNIV {} k s \<and> s_status s = Active)"
      using inv by (rule joinSession_found) (simp_all add: good_def)
    then show ?thesis by (simp add: JoinSession Let_def)
  next
    case (LeaveSession k u)
    have "store_inv (good UNIV {}) (snd (leaveSession k u st))"
      using inv by (rule leaveSession_inv) (simp_all add: good_def)
    then show ?thesis by (simp add: LeaveSession Let_def)
  next
    case (GetSession k)
    then show ?thesis using inv by simp
  next
    case (DeleteSession k)
    then show ?thesis using store_inv_deleteSession[OF inv] by simp
  next
    case (CleanupExpiredSessions now)
    then show ?thesis using store_inv_cleanupLoop[OF inv]
      by (simp add: cleanupExpiredSessions_def Let_def)
  next
    case RedisDown
    then show ?thesis using store_inv_env(1)[OF inv] by simp
  next
    case RedisUp
    then show ?thesis using store_inv_env(1)[OF inv] by simp
  next
    case (RedisExpire key)
    then show ?thesis using store_inv_env(2)[OF inv] by simp
  qed
  have m: "\<not> ended_nonempty s" if "s \<in> set (getAllActiveSessions (snd (step x st)))" for s
    using good_observed[OF i that] by (simp add: ended_nonempty_def)
  have r: "\<not> ended_nonempty s" if "s \<in> set (fst (step x st))" for s
  proof (cases x)
    case (CreateSession k now u ty)
    with that have "fst (createSession k now u ty st) = Inr s"
      by (auto simp: Let_def returned_def split: sum.splits)
    from createSession_returned[OF this] show ?thesis by (simp add: ended_nonempty_def)
  next
    case (JoinSession k u c now)
    with that have e: "fst (joinSession k u c now st) = Inr s"
      by (auto simp: Let_def returned_def split: sum.splits)
    have "store_inv (good UNIV {}) (snd (joinSession k u c now st))
       \<and> (\<forall>s. fst (joinSession k u c now st) = Inr s \<longrightarrow> good UNIV {} k s \<and> s_status s = Active)"
      using inv by (rule joinSession_found) (simp_all add: good_def)
    with e show ?thesis by (simp add: ended_nonempty_def)
  next
    case (LeaveSession k u)
    with that have e: "fst (leaveSession k u st) = Inr s"
      by (auto simp: Let_def returned_def split: sum.splits)
    from leaveSession_returned[OF e] obtain s0 where
      some: "map_of (activeSessions st) k = Some s0" and
      sh: "if filter (\<lambda>p. p_userId p \<noteq> u) (participants s0) = []
            then s = s0\<lparr>participants := [], s_status := Ended\<rparr>
            else s = s0\<lparr>participants := filter (\<lambda>p. p_userId p \<noteq> u) (participants s0)\<rparr>"
      by blast
    have "good UNIV {} k s0" using inv some by (rule store_inv_lookup)
    with sh show ?thesis by (auto simp: ended_nonempty_def good_def split: if_splits)
  next
    case (GetSession k)
    with that have "getSession k st = Some s"
      by (auto split: option.splits)
    from store_inv_getSession[OF inv this] show ?thesis
      by (simp add: ended_nonempty_def good_def)
  qed (use that in simp_all)
  show ?thesis using i m r by auto
qed

lemma run_weak:
  "store_inv (good UNIV {}) st \<Longrightarrow> \<forall>obs \<in> set (run ops st). \<forall>s \<in> set obs. \<not> ended_nonempty s"
proof (induction ops arbitrary: st)
  case Nil
  then show ?case by simp
next
  case (Cons x xs)
  from step_weak[OF Cons.prems, of x] Cons.IH[of "snd (step x st)"]
  show ?case by (auto simp: Let_def)
qed

lemma new_service_inv: "store_inv P (new_service stun b)"
  by (simp add: store_inv_def new_service_def)

text \<open>
  C7, as the code has it, for every run from a fresh service. No session is ever seen
  marked ended while it lists a participant. And when \<^verbatim>\<open>uuidv4()\<close> never hands out the
  same id twice, and every call of \<^verbatim>\<open>leaveSession\<close> that ends a session finds Redis up,
  no session id seen ended is seen active later.
\<close>

theorem terminal_state_monotonic:
  "(\<forall>obs \<in> set (run ops (new_service stun redis_up)). \<forall>s \<in> set obs. \<not> ended_nonempty s)
   \<and> (distinct (created_ids ops) \<and> ended_deletes_succeed ops (new_service stun redis_up)
        \<longrightarrow> \<not> resurrected (run ops (new_service stun redis_up)))"
  using run_weak[OF new_service_inv, of ops stun redis_up]
    run_strong[OF new_service_inv, of "{}" "{}" ops stun redis_up]
  by simp

lemma drain_run_observes_ended:
  "concat (run drain_run (new_service [] True)) =
     [\<lparr>s_id = ''s1'', s_userId = ''u1'', s_type = ''voice'', s_status = Created, createdAt = 0,
       participants = [], iceConfiguration = []\<rparr>,
      \<lparr>s_id = ''s1'', s_userId = ''u1'', s_type = ''voice'', s_status = Created, createdAt = 0,
       participants = [], iceConfiguration = []\<rparr>,
      example_session, example_session,
      example_session\<lparr>participants := [], s_status := Ended\<rparr>]"
  by (simp add: drain_run_def new_service_def Let_def returned_def createSession_def
      joinSession_def leaveSession_def storeSession_def getSession_def deleteSession_def
      setEx_def redis_get_def redis_del_def getIceServers_def getAllActiveSessions_def
      example_session_def)

lemma drain_run_deletes_succeed:
  "ended_deletes_succeed drain_run (new_service [] True)"
  by (simp add: drain_run_def new_service_def Let_def ends_session_def createSession_def
      joinSession_def leaveSession_def storeSession_def getSession_def deleteSession_def
      setEx_def redis_get_def redis_del_def getIceServers_def)

theorem terminal_state_monotonic_witness:
  "distinct (created_ids drain_run)
   \<and> ended_deletes_succeed drain_run (new_service [] True)
   \<and> \<not> resurrected (run drain_run (new_service [] True))
   \<and> list_all (list_all (\<lambda>s. \<not> ended_nonempty s)) (run drain_run (new_service [] True))
   \<and> example_session\<lparr>participants := [], s_status := Ended\<rparr>
       \<in> set (concat (run drain_run (new_service [] True)))"
proof -
  have d: "distinct (created_ids drain_run)"
    by (simp add: drain_run_def)
  have e: "example_session\<lparr>participants := [], s_status := Ended\<rparr>
      \<in> set (concat (run drain_run (new_service [] True)))"
    by (simp only: drain_run_observes_ended) simp
  show ?thesis
    using terminal_state_monotonic[of drain_run "[]" True] d drain_run_deletes_succeed e
    by (simp add: list_all_iff)
qed

text \<open>
  C7 as stated fails: Redis is down while the only participant of \<open>s1\<close> leaves, so the
  session is reported ended but its entry stays in Redis; once Redis is back, a join
  loads that entry into the map again and the session is active.
\<close>

theorem ended_session_resurrected:
  "resurrected (run resurrection_run (new_service [] True))"
  by (simp add: resurrection_run_def new_service_def Let_def returned_def createSession_def
      joinSession_def leaveSession_def storeSession_def getSession_def deleteSession_def
      setEx_def redis_get_def redis_del_def getIceServers_def getAllActiveSessions_def session_key_def)

section \<open>Conference bridge\<close>

lemma first_rejection_None:
  "first_rejection ps = None \<longleftrightarrow> (\<forall>x \<in> set ps. \<exists>v. snd x = Inr v)"
proof (induction ps rule: first_rejection.induct)
  case 1
  then show ?case by simp
next
  case (2 t msg rest)
  then show ?case by (simp split: option.splits)
next
  case (3 t v rest)
  then show ?case by simp
qed

lemma first_rejection_Some:
  "first_rejection ps = Some (t, m) \<Longrightarrow> (t, Inl m) \<in> set ps"
proof (induction ps arbitrary: t m rule: first_rejection.induct)
  case 1
  then show ?case by simp
next
  case (2 t' msg rest)
  then show ?case by (auto split: option.splits if_splits)
next
  case (3 t' v rest)
  then show ?case by simp
qed

lemma promise_all_Inr:
  "(\<exists>vs. promise_all ps = Inr vs) \<longleftrightarrow> (\<forall>x \<in> set ps. \<exists>v. snd x = Inr v)"
  using first_rejection_None[of ps]
  by (auto simp: promise_all_def split: option.splits)

lemma promise_all_Inl:
  "promise_all ps = Inl m \<Longrightarrow> \<exists>t. (t, Inl m) \<in> set ps"
  by (auto simp: promise_all_def split: option.splits dest: first_rejection_Some)

lemma addToConference_Inr:
  "(\<exists>v. addToConference tw client sid p = Inr v) \<longleftrightarrow>
   (\<exists>c. calls_create client (callRequest tw sid p) = Inr c)"
  by (auto simp: addToConference_def split: sum.splits)

lemma addToConference_Inl:
  "addToConference tw client sid p = Inl m \<longleftrightarrow>
   calls_create client (callRequest tw sid p) = Inl m"
  by (auto simp: addToConference_def split: sum.splits)

text \<open>
  C1, as the code has it, once the provider has created the conference:
  \<^verbatim>\<open>createConferenceCall\<close> awaits \<^verbatim>\<open>Promise.all\<close> over the leg creations, so it succeeds
  only when every leg creation succeeds, and then returns the conference id, the status
  \<open>created\<close> and the number of participants asked for, not the legs. When any leg
  creation fails, whatever the others did, it throws
  \<open>Conference call creation failed:\<close> followed by the message of a failed leg.
\<close>

theorem createConferenceCall_all_or_nothing:
  assumes "conferences_create client (conferenceRequest tw callId) = Inr conf"
  shows "((\<forall>p \<in> set ps. \<exists>c. calls_create client (callRequest tw (conference_sid conf) p) = Inr c) \<longrightarrow>
           createConferenceCall tw client callId ps =
             Inr \<lparr>conferenceSid = conference_sid conf, cc_status = ''created'',
                  cc_participants = length ps\<rparr>)
       \<and> ((\<exists>p \<in> set ps. \<exists>m. calls_create client (callRequest tw (conference_sid conf) p) = Inl m) \<longrightarrow>
           (\<exists>p \<in> set ps. \<exists>m. calls_create client (callRequest tw (conference_sid conf) p) = Inl m
              \<and> createConferenceCall tw client callId ps =
                  Inl (Error (''Conference call creation failed: '' @ m))))"
proof (intro conjI impI)
  let ?rs = "map (\<lambda>p. (calls_settle client (callRequest tw (conference_sid conf) p),
                       addToConference tw client (conference_sid conf) p)) ps"
  assume "\<forall>p \<in> set ps. \<exists>c. calls_create client (callRequest tw (conference_sid conf) p) = Inr c"
  then have "\<forall>x \<in> set ?rs. \<exists>v. snd x = Inr v"
    using addToConference_Inr[of tw client "conference_sid conf"] by auto
  then obtain vs where "promise_all ?rs = Inr vs"
    using promise_all_Inr[of ?rs] by blast
  then show "createConferenceCall tw client callId ps =
      Inr \<lparr>conferenceSid = conference_sid conf, cc_status = ''created'', cc_participants = length ps\<rparr>"
    using assms by (simp add: createConferenceCall_def)
next
  let ?rs = "map (\<lambda>p. (calls_settle client (callRequest tw (conference_sid conf) p),
                       addToConference tw client (conference_sid conf) p)) ps"
  assume "\<exists>p \<in> set ps. \<exists>m. calls_create client (callRequest tw (conference_sid conf) p) = Inl m"
  then obtain p m where "p \<in> set ps" "addToConference tw client (conference_sid conf) p = Inl m"
    using addToConference_Inl[of tw client "conference_sid conf"] by blast
  then have "\<not> (\<forall>x \<in> set ?rs. \<exists>v. snd x = Inr v)" by force
  then have "\<nexists>vs. promise_all ?rs = Inr vs"
    using promise_all_Inr[of ?rs] by blast
  then obtain m' where m': "promise_all ?rs = Inl m'"
    by (cases "promise_all ?rs") auto
  from promise_all_Inl[OF m'] obtain q where q: "q \<in> set ps"
    "addToConference tw client (conference_sid conf) q = Inl m'"
    by auto
  from q(2) have "calls_create client (callRequest tw (conference_sid conf) q) = Inl m'"
    by (simp add: addToConference_Inl)
  moreover have "createConferenceCall tw client callId ps =
      Inl (Error (''Conference call creation failed: '' @ m'))"
    using assms m' by (simp add: createConferenceCall_def)
  ultimately show "\<exists>p \<in> set ps. \<exists>m. calls_create client (callRequest tw (conference_sid conf) p) = Inl m
      \<and> createConferenceCall tw client callId ps = Inl (Error (''Conference call creation failed: '' @ m))"
    using q(1) by blast
qed

theorem createConferenceCall_all_or_nothing_witness:
  "createConferenceCall example_twilio example_client ''call-abc''
     [\<lparr>number = ''+15550000001'', isWhatsApp = False\<rparr>, \<lparr>number = ''+15550000002'', isWhatsApp = True\<rparr>]
   = Inr \<lparr>conferenceSid = ''CF1'', cc_status = ''created'', cc_participants = 2\<rparr>
   \<and> (\<exists>m. createConferenceCall example_twilio example_client ''call-abc''
        [\<lparr>number = ''+15550000001'', isWhatsApp = False\<rparr>, \<lparr>number = ''+15551234567'', isWhatsApp = True\<rparr>]
        = Inl (Error (''Conference call creation failed: '' @ m)))"
proof -
  have c: "conferences_create example_client (conferenceRequest example_twilio ''call-abc'') =
      Inr \<lparr>conference_sid = ''CF1''\<rparr>"
    by (simp add: example_client_def)
  show ?thesis
    using createConferenceCall_all_or_nothing[OF c,
        of "[\<lparr>number = ''+15550000001'', isWhatsApp = False\<rparr>, \<lparr>number = ''+15550000002'', isWhatsApp = True\<rparr>]"]
      createConferenceCall_all_or_nothing[OF c,
        of "[\<lparr>number = ''+15550000001'', isWhatsApp = False\<rparr>, \<lparr>number = ''+15551234567'', isWhatsApp = True\<rparr>]"]
    by (auto simp: example_client_def callRequest_def)
qed

text \<open>
  C1 as stated fails: of two legs the provider accepts the first and rejects the second,
  and the call throws instead of returning the leg that succeeded.
\<close>

theorem createConferenceCall_partial_failure_raises:
  "calls_create example_client
     (callRequest example_twilio ''CF1'' \<lparr>number = ''+15550000001'', isWhatsApp = False\<rparr>) =
     Inr \<lparr>call_sid = ''CA1'', call_status = ''queued''\<rparr>
   \<and> createConferenceCall example_twilio example_client ''call-abc''
       [\<lparr>number = ''+15550000001'', isWhatsApp = False\<rparr>,
        \<lparr>number = ''+15551234567'', isWhatsApp = True\<rparr>]
     = Inl (Error ''Conference call creation failed: busy'')"
  by (simp add: createConferenceCall_def promise_all_def addToConference_def callRequest_def
      example_client_def)

section \<open>Signalling relay\<close>




text \<open>
  C4 does not hold of the code. Connection \<open>c2\<close> is authenticated as \<open>u2\<close>, who is no
  participant of session \<open>s1\<close>. Its \<^verbatim>\<open>webrtc:offer\<close> for \<open>s1\<close> is forwarded to \<open>c1\<close>,
  and \<open>c2\<close> gets no error: \<^verbatim>\<open>createOffer\<close> asks only that the session exists.
  \<^verbatim>\<open>handleSignaling\<close>, the service's other signalling call, refuses the same user.
\<close>

theorem offer_from_non_participant_forwarded:
  "find (\<lambda>p. p_userId p = ''u2'') (participants example_session) = None
   \<and> handle example_verifyJWT ''c2''
       (WebrtcOffer (Some \<lparr>offer_sessionId = ''s1'', offer_sdp = ''v=0''\<rparr>)) 5 example_relay =
       ([\<lparr>target = ''c1'', event = ''webrtc:offer'',
          body = SdpPayload \<lparr>m_sessionId = ''s1'', m_userId = ''u2'', m_type = ''offer'',
                              m_sdp = ''v=0'', m_timestamp = 5\<rparr>\<rparr>], example_relay)
   \<and> handleSignaling ''s1'' ''u2'' \<lparr>sd_type = ''offer'', sd_data = ''v=0''\<rparr> 5 (webrtc example_relay)
       = Inl (Error ''Participant not found in session'')"
  by (simp add: example_relay_def example_service_def example_session_def handle_def
      on_webrtc_offer_def falsy_def createOffer_def to_room_emit_def session_room_def
      handleSignaling_def)

end
